theory Spec2Isabelle
  imports Complex_Main
begin

section \<open>Numeric model and helpers\<close>

text \<open>
  The engine computes with Python floats. They are modelled here by the real numbers with
  exact arithmetic: a division by zero raises \<open>ZeroDivisionError\<close> as in Python, while
  rounding and overflow of the binary format are outside the model. Integers are \<open>int\<close>.
  Every raise of the source is a branch of the result type \<open>error + 'a\<close>.
\<close>

datatype error =
    InputValidationError
  | ZeroDivisionError
  | UnboundLocalError
  | CalculationError "error option"
  \<comment> \<open>\<open>CalculationError None\<close>: raised directly; \<open>CalculationError (Some e)\<close>: raised \<open>from e\<close>.\<close>

definition bindE :: "error + 'a \<Rightarrow> ('a \<Rightarrow> error + 'b) \<Rightarrow> error + 'b" where
  "bindE r f = (case r of Inl e \<Rightarrow> Inl e | Inr v \<Rightarrow> f v)"

definition wrap :: "error + 'a \<Rightarrow> error + 'a" where
  \<comment> \<open>\<open>try: ... except Exception as e: raise CalculationError(...) from e\<close>\<close>
  "wrap r = (case r of Inl e \<Rightarrow> Inl (CalculationError (Some e)) | Inr v \<Rightarrow> Inr v)"

definition py_div :: "real \<Rightarrow> real \<Rightarrow> error + real" where
  "py_div a b = (if b = 0 then Inl ZeroDivisionError else Inr (a / b))"

definition py_int :: "real \<Rightarrow> int" where
  \<comment> \<open>Python's \<open>int(x)\<close> on a float truncates towards zero.\<close>
  "py_int x = (if x < 0 then \<lceil>x\<rceil> else \<lfloor>x\<rfloor>)"

definition py_range :: "int \<Rightarrow> int \<Rightarrow> int list" where
  \<comment> \<open>\<open>range(a, b)\<close>\<close>
  "py_range a b = [a..b - 1]"

text \<open>
  Modelled from the spec: the module \<open>config\<close> (\<open>INTERVAL\<close>, \<open>MAX_ACCURACY\<close> as imported by \<open>capacity.py\<close>) is not among
  the sources. The spec gives the reporting interval as a fixed positive number of seconds
  (3600) and the accuracy threshold as \<open>1e-5\<close>.
\<close>

definition INTERVAL :: real where
  "INTERVAL = 3600"

definition config_MAX_ACCURACY :: real where
  "config_MAX_ACCURACY = 0.00001"

subsection \<open>utils.py\<close>

definition min_max :: "real \<Rightarrow> real \<Rightarrow> real \<Rightarrow> real" where
  "min_max val min_val max_val = max (min val max_val) min_val"

definition int_ceiling :: "real \<Rightarrow> int" where
  "int_ceiling val = (if val < 0 then py_int (val - 0.9999) else py_int (val + 0.9999))"

definition secs :: "real \<Rightarrow> real \<Rightarrow> int" where
  "secs amount interval = py_int (amount * interval + 0.5)"

section \<open>calculations/erlang.py\<close>

text \<open>
  The \<open>for\<close> loops assign \<open>b\<close> only in their body, so \<open>b\<close> is unbound after a loop that
  never ran: the loop state carries \<open>last\<close> and an optional \<open>b\<close>.
\<close>

fun erlang_b_loop :: "real \<Rightarrow> int list \<Rightarrow> real \<Rightarrow> real option \<Rightarrow> error + (real \<times> real option)" where
  "erlang_b_loop intensity [] lastv b = Inr (lastv, b)"
| "erlang_b_loop intensity (count # cs) lastv b =
     bindE (py_div (intensity * lastv) (of_int count + intensity * lastv))
       (\<lambda>b'. erlang_b_loop intensity cs b' (Some b'))"

definition erlang_b :: "real \<Rightarrow> real \<Rightarrow> error + real" where
  "erlang_b servers intensity =
     (if servers < 0 \<or> intensity < 0 then Inr 0
      else bindE (erlang_b_loop intensity (py_range 1 (py_int servers + 1)) 1 None)
        (\<lambda>(lastv, b). case b of None \<Rightarrow> Inl UnboundLocalError
                        | Some v \<Rightarrow> Inr (min_max v 0 1)))"

fun erlang_b_ext_loop ::
  "real \<Rightarrow> real \<Rightarrow> int list \<Rightarrow> real \<Rightarrow> real option \<Rightarrow> error + (real \<times> real option)" where
  "erlang_b_ext_loop intensity retries [] lastv b = Inr (lastv, b)"
| "erlang_b_ext_loop intensity retries (count # cs) lastv b =
     bindE (py_div (intensity * lastv) (of_int count + intensity * lastv))
       (\<lambda>b1. bindE (py_div 1 (1 - b1 * retries))
         (\<lambda>attempts. bindE (py_div (intensity * lastv * attempts)
                                (of_int count + intensity * lastv * attempts))
           (\<lambda>b2. erlang_b_ext_loop intensity retries cs b2 (Some b2))))"

definition erlang_b_ext :: "real \<Rightarrow> real \<Rightarrow> real \<Rightarrow> error + real" where
  "erlang_b_ext servers intensity retry =
     (if servers < 0 \<or> intensity < 0 then Inr 0
      else bindE (erlang_b_ext_loop intensity (min_max retry 0 1)
                    (py_range 1 (py_int servers + 1)) 1 None)
        (\<lambda>(lastv, b). case b of None \<Rightarrow> Inl UnboundLocalError
                        | Some v \<Rightarrow> Inr (min_max v 0 1)))"

fun engset_b_loop ::
  "real \<Rightarrow> real \<Rightarrow> int list \<Rightarrow> real \<Rightarrow> real option \<Rightarrow> error + (real \<times> real option)" where
  "engset_b_loop ev val [] lastv b = Inr (lastv, b)"
| "engset_b_loop ev val (count # cs) lastv b =
     bindE (py_div (of_int count) ((ev - of_int count) * val))
       (\<lambda>q. engset_b_loop ev val cs (lastv * q + 1) (Some (lastv * q + 1)))"

definition engset_b :: "real \<Rightarrow> real \<Rightarrow> real \<Rightarrow> error + real" where
  "engset_b servers events intensity =
     (if servers < 0 \<or> intensity < 0 then Inr 0
      else bindE (engset_b_loop events intensity (py_range 1 (py_int servers + 1)) 1 None)
        (\<lambda>(lastv, b). case b of None \<Rightarrow> Inl UnboundLocalError
                        | Some v \<Rightarrow> if v = 0 then Inr 0
                                    else bindE (py_div 1 v) (\<lambda>r. Inr (min_max r 0 1))))"

definition erlang_c :: "real \<Rightarrow> real \<Rightarrow> error + real" where
  "erlang_c servers intensity =
     (if servers < 0 \<or> intensity < 0 then Inr 0
      else bindE (erlang_b servers intensity)
        (\<lambda>b. bindE (py_div intensity servers)
          (\<lambda>u. bindE (py_div b ((u * b) + (1 - u)))
            (\<lambda>c. Inr (min_max c 0 1)))))"

text \<open>
  The recurrence in the words of the specification, for comparison with the loop of
  \<open>erlang_b\<close>: \<open>B(0) = 1\<close> and \<open>B(k) = (intensity * B(k-1)) / (k + intensity * B(k-1))\<close>.
\<close>

fun erlang_b_rec :: "real \<Rightarrow> nat \<Rightarrow> real" where
  "erlang_b_rec a 0 = 1"
| "erlang_b_rec a (Suc k) = (a * erlang_b_rec a k) / (real (Suc k) + a * erlang_b_rec a k)"

section \<open>calculations/traffic.py\<close>

definition MAX_ACCURACY :: real where
  "MAX_ACCURACY = 0.00001"

definition MAX_LOOPS :: int where
  "MAX_LOOPS = 100"

text \<open>
  The \<open>while\<close> loop of \<open>looping_traffic\<close>; its state is \<open>increment\<close>, \<open>max_intensity\<close>,
  \<open>min_i\<close>, \<open>intensity\<close> and \<open>loop_no\<close>. The loop counter bounds it.
\<close>

function looping_traffic_loop ::
  "real \<Rightarrow> real \<Rightarrow> real \<Rightarrow> real \<Rightarrow> real \<Rightarrow> real \<Rightarrow> int \<Rightarrow> error + real" where
  "looping_traffic_loop trunks blocking increment max_intensity min_i intensity loop_no =
     (if increment \<ge> MAX_ACCURACY \<and> loop_no < MAX_LOOPS then
        (case erlang_b trunks intensity of
           Inl e \<Rightarrow> Inl e
         | Inr b \<Rightarrow>
             if b > blocking then
               looping_traffic_loop trunks blocking (increment / 10) intensity
                 min_i (min_i + increment / 10) (loop_no + 1)
             else
               looping_traffic_loop trunks blocking increment max_intensity
                 intensity (intensity + increment) (loop_no + 1))
      else Inr min_i)"
  by pat_completeness auto
termination
  by (relation "measure (\<lambda>(trunks, blocking, increment, max_intensity, min_i, intensity, loop_no).
        nat (MAX_LOOPS - loop_no))") auto

definition looping_traffic :: "real \<Rightarrow> real \<Rightarrow> real \<Rightarrow> real \<Rightarrow> real \<Rightarrow> error + real" where
  "looping_traffic trunks blocking increment max_intensity min_intensity =
     looping_traffic_loop trunks blocking increment max_intensity min_intensity min_intensity 0"

text \<open>
  The two \<open>while\<close> loops of \<open>traffic\<close> have no iteration cap; a run that never leaves
  them is the value \<open>None\<close>.
\<close>

partial_function (option) traffic_double ::
  "real \<Rightarrow> real \<Rightarrow> real \<Rightarrow> real \<Rightarrow> (error + real) option" where
  "traffic_double servers blocking max_i b =
     (if b < blocking then
        (case erlang_b servers (max_i * 2) of
           Inl e \<Rightarrow> Some (Inl e)
         | Inr b' \<Rightarrow> traffic_double servers blocking (max_i * 2) b')
      else Some (Inr max_i))"

partial_function (option) traffic_incr :: "real \<Rightarrow> real \<Rightarrow> real option" where
  "traffic_incr incr max_i =
     (if incr \<le> max_i / 100 then traffic_incr (incr * 10) max_i else Some incr)"

definition traffic :: "real \<Rightarrow> real \<Rightarrow> (error + real) option" where
  "traffic servers blocking =
     (let trunks_val = of_int (py_int servers) in
      if servers < 1 \<or> blocking < 0 then Some (Inr 0)
      else
        (case erlang_b servers trunks_val of
           Inl e \<Rightarrow> Some (Inl e)
         | Inr b \<Rightarrow>
             (case traffic_double servers blocking trunks_val b of
                None \<Rightarrow> None
              | Some (Inl e) \<Rightarrow> Some (Inl e)
              | Some (Inr max_i) \<Rightarrow>
                  (case traffic_incr 1 max_i of
                     None \<Rightarrow> None
                   | Some incr \<Rightarrow> Some (looping_traffic trunks_val blocking incr max_i 0)))))"

section \<open>queues/queues.py\<close>

definition queued :: "real \<Rightarrow> real \<Rightarrow> real \<Rightarrow> error + real" where
  "queued agents calls_per_hour aht =
     (if agents < 0 \<or> calls_per_hour < 0 \<or> aht \<le> 0 then Inl InputValidationError
      else wrap
        (bindE (py_div INTERVAL aht)
          (\<lambda>death_rate. bindE (py_div calls_per_hour death_rate)
            (\<lambda>traffic_rate. bindE (erlang_c agents traffic_rate)
              (\<lambda>q. Inr (min_max q 0 1))))))"

definition queue_time :: "real \<Rightarrow> real \<Rightarrow> real \<Rightarrow> error + int" where
  "queue_time agents calls_per_hour aht =
     (if agents < 0 \<or> calls_per_hour < 0 \<or> aht \<le> 0 then Inl InputValidationError
      else wrap
        (bindE (py_div INTERVAL aht)
          (\<lambda>death_rate. bindE (py_div calls_per_hour death_rate)
            (\<lambda>traffic_rate. bindE (py_div traffic_rate agents)
              (\<lambda>u. let utilisation = (if u \<ge> 1 then 0.99 else u) in
                 bindE (py_div 1 (agents * death_rate * (1 - utilisation)))
                   (\<lambda>qtime. Inr (secs qtime 600)))))))"

definition service_time :: "real \<Rightarrow> real \<Rightarrow> real \<Rightarrow> real \<Rightarrow> error + int" where
  "service_time agents sla calls_per_hour aht =
     (if agents < 0 \<or> sla < 0 \<or> calls_per_hour < 0 \<or> aht \<le> 0 then Inl InputValidationError
      else wrap
        (bindE (py_div INTERVAL aht)
          (\<lambda>death_rate. bindE (py_div calls_per_hour death_rate)
            (\<lambda>traffic_rate. bindE (erlang_c agents traffic_rate)
              (\<lambda>c. if c < 1 - sla then Inl (CalculationError None)
                 else bindE (py_div traffic_rate agents)
                   (\<lambda>u. let utilisation = (if u \<ge> 1 then 0.99 else u) in
                      bindE (py_div 1 (agents * death_rate * (1 - utilisation)))
                        (\<lambda>q. let qtime = q * INTERVAL in
                           bindE (py_div (1 - sla) c)
                             (\<lambda>r. let stime = qtime * (1 - r);
                                      adjust = (if stime < 0 then 1 else 0)
                                  in Inr (py_int (stime + adjust))))))))))"

definition sla_metric :: "real \<Rightarrow> real \<Rightarrow> real \<Rightarrow> real \<Rightarrow> error + real" where
  "sla_metric agents service_time_val calls_per_hour aht =
     (if agents < 0 \<or> calls_per_hour < 0 \<or> aht \<le> 0 \<or> service_time_val < 0
      then Inl InputValidationError
      else wrap
        (bindE (py_div INTERVAL aht)
          (\<lambda>death_rate. bindE (py_div calls_per_hour death_rate)
            (\<lambda>traffic_rate. bindE (py_div traffic_rate agents)
              (\<lambda>u. bindE (erlang_c agents traffic_rate)
                (\<lambda>c. bindE (py_div ((traffic_rate - agents) * service_time_val) aht)
                  (\<lambda>x. Inr (min_max (1 - c * exp x) 0 1))))))))"

section \<open>agents/capacity.py\<close>

text \<open>
  The first loop of the staffing ladder, \<open>while utilisation >= 1: no_agents += 1\<close>, has no
  cap; it ends because the utilisation falls below one once \<open>no_agents\<close> exceeds the
  traffic rate.
\<close>

function staffing_start :: "real \<Rightarrow> int \<Rightarrow> real \<Rightarrow> error + int" where
  "staffing_start traffic_rate no_agents utilisation =
     (if utilisation \<ge> 1 then
        (if (of_int (no_agents + 1) :: real) = 0 then Inl ZeroDivisionError
         else staffing_start traffic_rate (no_agents + 1) (traffic_rate / of_int (no_agents + 1)))
      else Inr no_agents)"
  by pat_completeness auto
termination
proof (relation "measure (\<lambda>(t, n, u). (if u \<ge> 1 then 1 else 0) + nat (\<lceil>\<bar>t\<bar>\<rceil> + 1 - n))")
  show "wf (measure (\<lambda>(t, n, u). (if u \<ge> (1::real) then 1 else 0) + nat (\<lceil>\<bar>t::real\<bar>\<rceil> + 1 - n)))"
    by simp
next
  fix traffic_rate :: real and no_agents :: int and utilisation :: real
  assume u: "1 \<le> utilisation" and nz: "(of_int (no_agents + 1) :: real) \<noteq> 0"
  show "((traffic_rate, no_agents + 1, traffic_rate / of_int (no_agents + 1)),
          (traffic_rate, no_agents, utilisation))
        \<in> measure (\<lambda>(t, n, u). (if u \<ge> 1 then 1 else 0) + nat (\<lceil>\<bar>t\<bar>\<rceil> + 1 - n))"
  proof (cases "no_agents < \<lceil>\<bar>traffic_rate\<bar>\<rceil> + 1")
    case True
    then show ?thesis using u by auto
  next
    case False
    then have "\<lceil>\<bar>traffic_rate\<bar>\<rceil> + 1 \<le> no_agents" by simp
    then have "\<bar>traffic_rate\<bar> + 1 \<le> of_int no_agents"
      by (metis add.commute le_of_int_ceiling of_int_1 of_int_add of_int_le_iff order_trans add_le_cancel_left)
    then have "traffic_rate < of_int (no_agents + 1)" and "0 < (of_int (no_agents + 1) :: real)"
      by auto
    then have "traffic_rate / of_int (no_agents + 1) < 1"
      by simp
    then show ?thesis using u False by auto
  qed
qed

fun agents_required_loop ::
  "nat \<Rightarrow> real \<Rightarrow> real \<Rightarrow> real \<Rightarrow> real \<Rightarrow> int \<Rightarrow> error + int" where
  "agents_required_loop 0 sla service_time_val traffic_rate aht no_agents = Inr no_agents"
| "agents_required_loop (Suc k) sla service_time_val traffic_rate aht no_agents =
     bindE (py_div traffic_rate (of_int no_agents))
       (\<lambda>utilisation.
          if utilisation < 1 then
            bindE (erlang_c (of_int no_agents) traffic_rate)
              (\<lambda>c. bindE (py_div ((traffic_rate - of_int no_agents) * service_time_val) aht)
                (\<lambda>x. let sl = 1 - c * exp x;
                         sl_queued = (if sl < 0 then 0 else sl)
                     in if sl_queued \<ge> sla \<or> sl_queued > 1 - config_MAX_ACCURACY
                        then Inr no_agents
                        else agents_required_loop k sla service_time_val traffic_rate aht
                               (no_agents + 1)))
          else agents_required_loop k sla service_time_val traffic_rate aht (no_agents + 1))"

definition agents_required :: "real \<Rightarrow> real \<Rightarrow> real \<Rightarrow> real \<Rightarrow> error + int" where
  "agents_required sla service_time_val calls_per_hour aht =
     (if sla < 0 \<or> calls_per_hour < 0 \<or> aht \<le> 0 then Inl InputValidationError
      else wrap
        (let sla' = min sla 1 in
         bindE (py_div INTERVAL aht)
          (\<lambda>death_rate. bindE (py_div calls_per_hour death_rate)
            (\<lambda>traffic_rate. bindE (py_div (calls_per_hour * aht) INTERVAL)
              (\<lambda>e. let erlangs = py_int (e + 0.5);
                       no_agents = (if erlangs < 1 then 1 else erlangs)
                   in bindE (py_div traffic_rate (of_int no_agents))
                     (\<lambda>utilisation. bindE (staffing_start traffic_rate no_agents utilisation)
                       (\<lambda>no_agents. agents_required_loop (nat (no_agents * 100)) sla'
                                       service_time_val traffic_rate aht no_agents)))))))"

definition asa :: "real \<Rightarrow> real \<Rightarrow> real \<Rightarrow> error + int" where
  "asa agents calls_per_hour aht =
     (if agents \<le> 0 \<or> calls_per_hour < 0 \<or> aht \<le> 0 then Inl InputValidationError
      else wrap
        (bindE (py_div INTERVAL aht)
          (\<lambda>death_rate. bindE (py_div calls_per_hour death_rate)
            (\<lambda>traffic_rate. bindE (py_div traffic_rate agents)
              (\<lambda>u. let utilisation = (if u \<ge> 1 then 0.99 else u) in
                 bindE (erlang_c agents traffic_rate)
                   (\<lambda>c. bindE (py_div c (agents * death_rate * (1 - utilisation)))
                     (\<lambda>answer_time. Inr (secs answer_time 600))))))))"

fun nb_agents_loop :: "real \<Rightarrow> real \<Rightarrow> real \<Rightarrow> int list \<Rightarrow> error + int" where
  "nb_agents_loop calls_ph avg_sa avg_ht [] = Inl (CalculationError None)"
| "nb_agents_loop calls_ph avg_sa avg_ht (count # cs) =
     bindE (asa (of_int count) calls_ph avg_ht)
       (\<lambda>a. if of_int a \<le> avg_sa then Inr count
            else nb_agents_loop calls_ph avg_sa avg_ht cs)"

definition nb_agents :: "real \<Rightarrow> real \<Rightarrow> real \<Rightarrow> error + int" where
  "nb_agents calls_ph avg_sa avg_ht =
     (if calls_ph < 0 \<or> avg_sa < 0 \<or> avg_ht \<le> 0 then Inl InputValidationError
      else wrap (nb_agents_loop calls_ph avg_sa avg_ht (py_range 1 (65535 + 1))))"

text \<open>
  The ladder of \<open>fractional_agents\<close> keeps the last two service-level samples; its result
  is the agent count reached, \<open>sl_queued\<close> and \<open>last_slq\<close>.
\<close>

fun fractional_agents_loop ::
  "nat \<Rightarrow> real \<Rightarrow> real \<Rightarrow> real \<Rightarrow> real \<Rightarrow> int \<Rightarrow> real \<Rightarrow> real \<Rightarrow> error + (int \<times> real \<times> real)" where
  "fractional_agents_loop 0 sla service_time_val traffic_rate aht no_agents sl_queued last_slq =
     Inr (no_agents, sl_queued, last_slq)"
| "fractional_agents_loop (Suc k) sla service_time_val traffic_rate aht no_agents sl_queued last_slq =
     bindE (py_div traffic_rate (of_int no_agents))
       (\<lambda>utilisation.
          if utilisation < 1 then
            bindE (erlang_c (of_int no_agents) traffic_rate)
              (\<lambda>c. bindE (py_div ((traffic_rate - of_int no_agents) * service_time_val) aht)
                (\<lambda>x. let sl = 1 - c * exp x;
                         sl0 = (if sl < 0 then 0 else sl);
                         sl1 = (if sl0 > 1 then 1 else sl0)
                     in if sl1 \<ge> sla \<or> sl1 > 1 - config_MAX_ACCURACY
                        then Inr (no_agents, sl1, sl_queued)
                        else fractional_agents_loop k sla service_time_val traffic_rate aht
                               (no_agents + 1) sl1 sl_queued))
          else fractional_agents_loop k sla service_time_val traffic_rate aht
                 (no_agents + 1) sl_queued sl_queued)"

definition fractional_agents :: "real \<Rightarrow> real \<Rightarrow> real \<Rightarrow> real \<Rightarrow> error + real" where
  "fractional_agents sla service_time_val calls_per_hour aht =
     (if sla < 0 \<or> calls_per_hour < 0 \<or> aht \<le> 0 \<or> service_time_val < 0
      then Inl InputValidationError
      else wrap
        (let sla' = min sla 1 in
         bindE (py_div INTERVAL aht)
          (\<lambda>death_rate. bindE (py_div calls_per_hour death_rate)
            (\<lambda>traffic_rate. bindE (py_div (calls_per_hour * aht) INTERVAL)
              (\<lambda>e. let erlangs = py_int (e + 0.5);
                       no_agents = (if erlangs < 1 then 1 else erlangs)
                   in bindE (py_div traffic_rate (of_int no_agents))
                     (\<lambda>utilisation. bindE (staffing_start traffic_rate no_agents utilisation)
                       (\<lambda>no_agents.
                          bindE (fractional_agents_loop (nat (no_agents * 100)) sla'
                                   service_time_val traffic_rate aht no_agents 0 0)
                            (\<lambda>(no_agents, sl_queued, last_slq).
                               if sl_queued > sla' then
                                 bindE (py_div (sla' - last_slq) (sl_queued - last_slq))
                                   (\<lambda>q. Inr (q + of_int (no_agents - 1)))
                               else Inr (of_int no_agents)))))))))"

text \<open>
  Two expressions of the ladder, named so that theorems can speak of them: the first agent
  count tried (\<open>erlangs\<close> rounded half up, at least one), and the service-level sample
  that the loop body of \<open>fractional_agents\<close> computes at a given agent count.
\<close>

definition initial_agents :: "real \<Rightarrow> real \<Rightarrow> int" where
  "initial_agents calls_per_hour aht =
     (let erlangs = py_int ((calls_per_hour * aht) / INTERVAL + 0.5)
      in if erlangs < 1 then 1 else erlangs)"

definition ladder_sample :: "real \<Rightarrow> real \<Rightarrow> real \<Rightarrow> int \<Rightarrow> error + real" where
  "ladder_sample service_time_val traffic_rate aht no_agents =
     bindE (erlang_c (of_int no_agents) traffic_rate)
       (\<lambda>c. bindE (py_div ((traffic_rate - of_int no_agents) * service_time_val) aht)
         (\<lambda>x. let sl = 1 - c * exp x;
                  sl0 = (if sl < 0 then 0 else sl);
                  sl1 = (if sl0 > 1 then 1 else sl0)
              in Inr sl1))"

section \<open>trunks/trunks.py\<close>

fun number_trunks_loop :: "real \<Rightarrow> int list \<Rightarrow> error + int" where
  "number_trunks_loop intensity [] = Inl (CalculationError None)"
| "number_trunks_loop intensity (count # cs) =
     bindE (erlang_b (of_int count) intensity)
       (\<lambda>b. if b < 0.001 then Inr count else number_trunks_loop intensity cs)"

definition number_trunks :: "real \<Rightarrow> real \<Rightarrow> error + int" where
  "number_trunks servers intensity =
     (if servers < 0 \<or> intensity < 0 then Inl InputValidationError
      else wrap (number_trunks_loop intensity (py_range (int_ceiling servers) (65535 + 1))))"

section \<open>Basic facts\<close>

lemma bindE_Inl [simp]: "bindE (Inl e) f = Inl e"
  by (simp add: bindE_def)

lemma bindE_Inr [simp]: "bindE (Inr v) f = f v"
  by (simp add: bindE_def)

lemma wrap_Inl [simp]: "wrap (Inl e) = Inl (CalculationError (Some e))"
  by (simp add: wrap_def)

lemma wrap_Inr [simp]: "wrap (Inr v) = Inr v"
  by (simp add: wrap_def)

lemma erlang_b_rec_bounds:
  "0 \<le> a \<Longrightarrow> 0 \<le> erlang_b_rec a k \<and> erlang_b_rec a k \<le> 1 \<and> a * (1 - erlang_b_rec a k) \<le> real k"
proof (induction k)
  case 0
  then show ?case by simp
next
  case (Suc k)
  let ?B = "erlang_b_rec a k"
  from Suc have B: "0 \<le> ?B" "?B \<le> 1" "a * (1 - ?B) \<le> real k" by auto
  have aB: "0 \<le> a * ?B" using Suc.prems B(1) by simp
  have den: "0 < real (Suc k) + a * ?B" using aB by simp
  have 1: "0 \<le> erlang_b_rec a (Suc k)" using aB den by simp
  have 2: "erlang_b_rec a (Suc k) \<le> 1" using aB den by simp
  have "1 - erlang_b_rec a (Suc k) = real (Suc k) / (real (Suc k) + a * ?B)"
    using den by (simp add: field_simps)
  then have "a * (1 - erlang_b_rec a (Suc k)) = a * real (Suc k) / (real (Suc k) + a * ?B)"
    by simp
  also have "\<dots> \<le> real (Suc k)"
  proof -
    have "a \<le> real (Suc k) + a * ?B" using B(3) by (simp add: algebra_simps)
    then have "a * real (Suc k) \<le> real (Suc k) * (real (Suc k) + a * ?B)"
      by (simp add: mult.commute mult_left_mono)
    then show ?thesis using den by (simp add: field_simps)
  qed
  finally show ?case using 1 2 by simp
qed

lemma erlang_b_rec_mono_step:
  assumes "0 \<le> a" shows "erlang_b_rec a (Suc k) \<le> erlang_b_rec a k"
proof -
  let ?B = "erlang_b_rec a k"
  from erlang_b_rec_bounds[OF assms, of k]
  have B: "0 \<le> ?B" "?B \<le> 1" "a * (1 - ?B) \<le> real k" by auto
  have aB: "0 \<le> a * ?B" using assms B(1) by simp
  have den: "0 < real (Suc k) + a * ?B" using aB by simp
  have "a \<le> real (Suc k) + a * ?B" using B(3) by (simp add: algebra_simps)
  then have "?B * a \<le> ?B * (real (Suc k) + a * ?B)"
    using B(1) by (rule mult_left_mono)
  then have "a * ?B \<le> ?B * (real (Suc k) + a * ?B)"
    by (simp add: mult.commute)
  then have "a * ?B / (real (Suc k) + a * ?B) \<le> ?B"
    using den by (simp add: pos_divide_le_eq)
  then show ?thesis by simp
qed

lemma erlang_b_loop_append:
  "erlang_b_loop a (xs @ ys) l b =
     bindE (erlang_b_loop a xs l b) (\<lambda>(l', b'). erlang_b_loop a ys l' b')"
  by (induction xs arbitrary: l b) (auto simp: bindE_def split: sum.splits)

lemma erlang_b_loop_upto:
  assumes "0 \<le> a"
  shows "erlang_b_loop a [1..int k] 1 None =
           Inr (erlang_b_rec a k, if k = 0 then None else Some (erlang_b_rec a k))"
proof (induction k)
  case 0
  then show ?case by simp
next
  case (Suc k)
  from erlang_b_rec_bounds[OF assms, of k] assms
  have aB: "0 \<le> a * erlang_b_rec a k" by simp
  have "[1..int (Suc k)] = [1..int k] @ [int (Suc k)]"
    using upto_rec2[of 1 "int (Suc k)"] by simp
  then show ?case using Suc aB
    by (simp add: erlang_b_loop_append py_div_def add.commute)
qed

lemma py_int_nonneg: "0 \<le> x \<Longrightarrow> py_int x = \<lfloor>x\<rfloor>"
  by (simp add: py_int_def)

lemma min_max_unit: "0 \<le> min_max v 0 1 \<and> min_max v 0 1 \<le> 1"
  by (simp add: min_max_def)

lemma min_max_id: "0 \<le> v \<Longrightarrow> v \<le> 1 \<Longrightarrow> min_max v 0 1 = v"
  by (simp add: min_max_def)

lemma erlang_b_eq_rec:
  assumes "1 \<le> servers" "0 \<le> intensity"
  shows "erlang_b servers intensity = Inr (erlang_b_rec intensity (nat \<lfloor>servers\<rfloor>))"
proof -
  have f: "1 \<le> \<lfloor>servers\<rfloor>" using assms(1) by linarith
  define k where "k = nat \<lfloor>servers\<rfloor>"
  have k: "k \<noteq> 0" "\<lfloor>servers\<rfloor> = int k" using f by (auto simp: k_def)
  have r: "py_range 1 (py_int servers + 1) = [1..int k]"
    using assms(1) k by (simp add: py_range_def py_int_def)
  have "erlang_b servers intensity = Inr (min_max (erlang_b_rec intensity k) 0 1)"
    using assms k(1) unfolding erlang_b_def r erlang_b_loop_upto[OF assms(2)]
    by simp
  then show ?thesis
    using erlang_b_rec_bounds[OF assms(2), of k] by (simp add: min_max_id k_def)
qed

lemma looping_traffic_loop_max_irrelevant:
  "looping_traffic_loop trunks blocking increment m1 min_i intensity loop_no =
   looping_traffic_loop trunks blocking increment m2 min_i intensity loop_no"
proof (induction trunks blocking increment m1 min_i intensity loop_no arbitrary: m2
       rule: looping_traffic_loop.induct)
  case (1 trunks blocking increment max_intensity min_i intensity loop_no)
  have L: "looping_traffic_loop trunks blocking increment max_intensity min_i intensity loop_no =
     (if increment \<ge> MAX_ACCURACY \<and> loop_no < MAX_LOOPS then
        (case erlang_b trunks intensity of
           Inl e \<Rightarrow> Inl e
         | Inr b \<Rightarrow>
             if b > blocking then
               looping_traffic_loop trunks blocking (increment / 10) intensity
                 min_i (min_i + increment / 10) (loop_no + 1)
             else
               looping_traffic_loop trunks blocking increment max_intensity
                 intensity (intensity + increment) (loop_no + 1))
      else Inr min_i)"
    by (rule looping_traffic_loop.simps)
  have R: "looping_traffic_loop trunks blocking increment m2 min_i intensity loop_no =
     (if increment \<ge> MAX_ACCURACY \<and> loop_no < MAX_LOOPS then
        (case erlang_b trunks intensity of
           Inl e \<Rightarrow> Inl e
         | Inr b \<Rightarrow>
             if b > blocking then
               looping_traffic_loop trunks blocking (increment / 10) intensity
                 min_i (min_i + increment / 10) (loop_no + 1)
             else
               looping_traffic_loop trunks blocking increment m2
                 intensity (intensity + increment) (loop_no + 1))
      else Inr min_i)"
    by (rule looping_traffic_loop.simps)
  show ?case
  proof (cases "increment \<ge> MAX_ACCURACY \<and> loop_no < MAX_LOOPS")
    case False
    show ?thesis unfolding L R if_not_P[OF False] by (rule refl)
  next
    case c: True
    show ?thesis
    proof (cases "erlang_b trunks intensity")
      case (Inl e)
      then show ?thesis unfolding L R if_P[OF c] by simp
    next
      case (Inr b)
      show ?thesis
      proof (cases "b > blocking")
        case True
        then show ?thesis unfolding L R if_P[OF c] Inr by simp
      next
        case False
        with "1.IH"(2)[OF c Inr, of m2] show ?thesis
          unfolding L R if_P[OF c] Inr by simp
      qed
    qed
  qed
qed

subsection \<open>Concrete evaluations\<close>

lemma upto_1_2: "[1..2::int] = [1, 2]"
  by (simp add: upto.simps)

lemmas eval_defs =
  erlang_b_def erlang_b_ext_def engset_b_def erlang_c_def py_range_def py_int_def py_div_def
  min_max_def INTERVAL_def upto_1_2

lemma erlang_b_1_1: "erlang_b 1 1 = Inr (1/2)"
  by (simp add: eval_defs)

lemma erlang_b_2_1: "erlang_b 2 1 = Inr (1/5)"
  by (simp add: eval_defs)

lemma erlang_b_ext_1_1_half: "erlang_b_ext 1 1 (1/2) = Inr (4/7)"
  by (simp add: eval_defs)

lemma engset_b_1_3_1: "engset_b 1 3 1 = Inr (2/3)"
  by (simp add: eval_defs)

lemma erlang_c_2_1: "erlang_c 2 1 = Inr (1/3)"
  by (simp add: eval_defs)

lemma queued_2_20_180: "queued 2 20 180 = Inr (1/3)"
  by (simp add: queued_def eval_defs)

lemma sla_metric_2_20_20_180:
  "sla_metric 2 20 20 180 = Inr (min_max (1 - (1/3) * exp (- (1/9))) 0 1)"
  by (simp add: sla_metric_def eval_defs)

subsection \<open>The loops of traffic\<close>

lemma traffic_incr_pow:
  assumes "m / 100 < 10 ^ n"
  shows "j \<le> n \<Longrightarrow> (\<forall>i<j. (10::real) ^ i \<le> m / 100) \<Longrightarrow>
         \<exists>k. traffic_incr (10 ^ j) m = Some (10 ^ k) \<and> m / 100 < 10 ^ k \<and>
             (\<forall>i<k. (10::real) ^ i \<le> m / 100)"
proof (induction "n - j" arbitrary: j)
  case 0
  then have "j = n" by simp
  with assms have "\<not> (10::real) ^ j \<le> m / 100" by simp
  then have "traffic_incr (10 ^ j) m = Some (10 ^ j)"
    by (subst traffic_incr.simps) simp
  with 0 assms \<open>j = n\<close> show ?case by blast
next
  case (Suc d)
  show ?case
  proof (cases "(10::real) ^ j \<le> m / 100")
    case False
    then have "traffic_incr (10 ^ j) m = Some (10 ^ j)"
      by (subst traffic_incr.simps) simp
    with False Suc.prems show ?thesis by (metis not_le)
  next
    case True
    have step: "traffic_incr (10 ^ j) m = traffic_incr (10 ^ Suc j) m"
      using True by (subst traffic_incr.simps) (simp add: mult.commute)
    have "d = n - Suc j" "Suc j \<le> n" using Suc.hyps(2) by auto
    moreover have "\<forall>i<Suc j. (10::real) ^ i \<le> m / 100"
      using True Suc.prems(2) by (auto simp: less_Suc_eq)
    ultimately show ?thesis using Suc.hyps(1)[of "Suc j"] step by simp
  qed
qed

lemma traffic_incr_result:
  "\<exists>k. traffic_incr 1 m = Some (10 ^ k) \<and> m / 100 < 10 ^ k \<and>
       (\<forall>i<k. (10::real) ^ i \<le> m / 100)"
proof -
  obtain n where "m / 100 < (10::real) ^ n"
    using real_arch_pow[of 10 "m / 100"] by auto
  from traffic_incr_pow[OF this, of 0] show ?thesis by simp
qed

lemma erlang_b_returns:
  assumes "1 \<le> servers" "0 \<le> intensity"
  shows "\<exists>b. erlang_b servers intensity = Inr b \<and> 0 \<le> b \<and> b \<le> 1"
  using erlang_b_eq_rec[OF assms] erlang_b_rec_bounds[OF assms(2), of "nat \<lfloor>servers\<rfloor>"]
  by simp

lemma traffic_double_never_returns:
  assumes "traffic_double servers blocking max_i b = Some y"
  shows "\<not> (1 \<le> servers \<and> 0 \<le> max_i \<and> b \<le> 1 \<and> 1 < blocking)"
proof (rule traffic_double.raw_induct
         [where P = "\<lambda>s bl m b0 r. \<not> (1 \<le> s \<and> 0 \<le> m \<and> b0 \<le> 1 \<and> 1 < bl)", OF _ assms])
  fix f :: "real \<Rightarrow> real \<Rightarrow> real \<Rightarrow> real \<Rightarrow> (error + real) option"
    and s bl m b0 r
  assume IH: "\<And>s bl m b0 r. f s bl m b0 = Some r \<Longrightarrow>
                \<not> (1 \<le> s \<and> 0 \<le> m \<and> b0 \<le> 1 \<and> 1 < bl)"
    and step: "(if b0 < bl
                then case erlang_b s (m * 2) of Inl e \<Rightarrow> Some (Inl e)
                     | Inr b' \<Rightarrow> f s bl (m * 2) b'
                else Some (Inr m)) = Some r"
  show "\<not> (1 \<le> s \<and> 0 \<le> m \<and> b0 \<le> 1 \<and> 1 < bl)"
  proof
    assume inv: "1 \<le> s \<and> 0 \<le> m \<and> b0 \<le> 1 \<and> 1 < bl"
    then have lt: "b0 < bl" by simp
    from inv obtain b' where b': "erlang_b s (m * 2) = Inr b'" "b' \<le> 1"
      using erlang_b_returns[of s "m * 2"] by auto
    from step lt b' have "f s bl (m * 2) b' = Some r"
      by simp
    from IH[OF this] inv b'(2) show False by simp
  qed
qed

lemma traffic_double_1_half: "traffic_double 1 (1/2) 1 (1/2) = Some (Inr 1)"
  by (subst traffic_double.simps) simp

lemma traffic_incr_1_1: "traffic_incr 1 1 = Some 1"
  by (subst traffic_incr.simps) simp

lemma traffic_1_half: "traffic 1 (1/2) = Some (looping_traffic 1 (1/2) 1 1 0)"
  by (simp add: traffic_def py_int_def erlang_b_1_1 traffic_double_1_half traffic_incr_1_1)

subsection \<open>Saturated queues and exhausted searches\<close>

lemma erlang_b_rec_carried_strict:
  assumes "0 \<le> a" "k \<noteq> 0"
  shows "a * (1 - erlang_b_rec a k) < real k"
proof -
  obtain j where k: "k = Suc j" using assms(2) by (cases k) auto
  let ?B = "erlang_b_rec a j"
  from erlang_b_rec_bounds[OF assms(1), of j]
  have B: "0 \<le> ?B" "a * (1 - ?B) \<le> real j" by auto
  have aB: "0 \<le> a * ?B" using assms(1) B(1) by simp
  have den: "0 < real (Suc j) + a * ?B" using aB by simp
  have "1 - erlang_b_rec a (Suc j) = real (Suc j) / (real (Suc j) + a * ?B)"
    using den by (simp add: field_simps)
  then have eq: "a * (1 - erlang_b_rec a (Suc j)) = a * real (Suc j) / (real (Suc j) + a * ?B)"
    by simp
  have "a < real (Suc j) + a * ?B" using B(2) by (simp add: algebra_simps)
  then have "real (Suc j) * a < real (Suc j) * (real (Suc j) + a * ?B)"
    by (intro mult_strict_left_mono) simp_all
  then have "a * real (Suc j) / (real (Suc j) + a * ?B) < real (Suc j)"
    using den by (simp add: pos_divide_less_eq mult.commute)
  with eq k show ?thesis by simp
qed

lemma erlang_c_saturated:
  assumes "1 \<le> servers" "servers \<le> intensity"
  shows "erlang_c servers intensity = Inr 1"
proof -
  have i0: "0 \<le> intensity" and s0: "0 < servers" using assms by auto
  define k where "k = nat \<lfloor>servers\<rfloor>"
  have k: "k \<noteq> 0" "real k \<le> servers"
    using assms(1) unfolding k_def by (auto simp: le_floor_iff) 
  define B where "B = erlang_b_rec intensity k"
  have eb: "erlang_b servers intensity = Inr B"
    using erlang_b_eq_rec[OF assms(1) i0] by (simp add: B_def k_def)
  have B: "0 \<le> B" "B \<le> 1"
    using erlang_b_rec_bounds[OF i0, of k] by (auto simp: B_def)
  have car: "intensity * (1 - B) < servers"
    using erlang_b_rec_carried_strict[OF i0 k(1)] k(2) by (simp add: B_def)
  define u where "u = intensity / servers"
  have u1: "1 \<le> u" using assms s0 by (simp add: u_def)
  have "u * (1 - B) = intensity * (1 - B) / servers" by (simp add: u_def)
  also have "\<dots> < 1" using car s0 by simp
  finally have den: "0 < u * B + (1 - u)" by (simp add: algebra_simps)
  have "(u - 1) * (1 - B) \<ge> 0" using u1 B(2) by simp
  then have "u * B + (1 - u) \<le> B" by (simp add: algebra_simps)
  then have c1: "1 \<le> B / (u * B + (1 - u))" using den by (simp add: pos_le_divide_eq)
  have "erlang_c servers intensity = Inr (min_max (B / (u * B + (1 - u))) 0 1)"
    using assms s0 i0 den by (simp add: erlang_c_def eb py_div_def u_def)
  then show ?thesis using c1 by (simp add: min_max_def)
qed

lemma py_div_nz: "b \<noteq> 0 \<Longrightarrow> py_div a b = Inr (a / b)"
  by (simp add: py_div_def)

lemma asa_saturated:
  assumes "1 \<le> agents" "0 \<le> calls_per_hour" "0 < aht"
    and "agents \<le> calls_per_hour / (INTERVAL / aht)"
  shows "asa agents calls_per_hour aht =
           Inr (secs (1 / (agents * (INTERVAL / aht) * (1 - 0.99))) 600)"
proof -
  have dd: "0 < INTERVAL / aht" using assms(3) by (simp add: INTERVAL_def)
  have a0: "0 < agents" using assms(1) by simp
  have v: "(agents \<le> 0 \<or> calls_per_hour < 0 \<or> aht \<le> 0) = False"
    using assms a0 by simp
  have dnz: "INTERVAL / aht \<noteq> 0" "aht \<noteq> 0" "agents \<noteq> 0"
    using assms(3) a0 by (simp_all add: INTERVAL_def)
  have 1: "py_div INTERVAL aht = Inr (INTERVAL / aht)"
    by (rule py_div_nz[OF dnz(2)])
  have 2: "py_div calls_per_hour (INTERVAL / aht) = Inr (calls_per_hour / (INTERVAL / aht))"
    by (rule py_div_nz[OF dnz(1)])
  have 3: "py_div (calls_per_hour / (INTERVAL / aht)) agents =
             Inr (calls_per_hour / (INTERVAL / aht) / agents)"
    by (rule py_div_nz[OF dnz(3)])
  from assms(4) have "1 * agents \<le> calls_per_hour / (INTERVAL / aht)"
    by (simp only: mult_1)
  then have "1 \<le> calls_per_hour / (INTERVAL / aht) / agents"
    by (simp only: pos_le_divide_eq[OF a0])
  then have u: "(1 \<le> calls_per_hour / (INTERVAL / aht) / agents) = True"
    by (simp only: eq_True)
  have 4: "erlang_c agents (calls_per_hour / (INTERVAL / aht)) = Inr 1"
    using assms(1,4) by (rule erlang_c_saturated)
  have "agents * (INTERVAL / aht) * (1 - 0.99) \<noteq> 0"
    using dnz by simp
  then have 5: "py_div 1 (agents * (INTERVAL / aht) * (1 - 0.99)) =
             Inr (1 / (agents * (INTERVAL / aht) * (1 - 0.99)))"
    by (rule py_div_nz)
  show ?thesis
    unfolding asa_def
    by (simp only: v if_False 1 2 3 u if_True Let_def 4 5 bindE_Inr wrap_Inr)
qed

lemma nb_agents_loop_exhausted:
  "(\<forall>count\<in>set cs. \<exists>a. asa (of_int count) calls_ph avg_ht = Inr a \<and> avg_sa < of_int a) \<Longrightarrow>
   nb_agents_loop calls_ph avg_sa avg_ht cs = Inl (CalculationError None)"
  by (induction cs) auto

lemma number_trunks_loop_exhausted:
  "(\<forall>count\<in>set cs. \<exists>b. erlang_b (of_int count) intensity = Inr b \<and> \<not> b < 0.001) \<Longrightarrow>
   number_trunks_loop intensity cs = Inl (CalculationError None)"
  by (induction cs) auto

lemma set_py_range: "set (py_range a b) = {a..b - 1}"
  by (simp add: py_range_def)

lemma erlang_c_2_half: "erlang_c 2 (1/2) = Inr (1/10)"
  by (simp add: eval_defs)

lemma asa_overloaded:
  assumes "1 \<le> count" "count \<le> 65535"
  shows "\<exists>a. asa (of_int count) 100000 3600 = Inr a \<and> (0::real) < of_int a"
proof -
  have c: "1 \<le> (of_int count :: real)" "(of_int count :: real) \<le> 65535"
    using assms by simp_all
  have "(of_int count :: real) \<le> 100000 / (INTERVAL / 3600)"
    using c by (simp add: INTERVAL_def)
  from asa_saturated[OF c(1) _ _ this]
  have e: "asa (of_int count) 100000 3600 =
             Inr (secs (1 / (of_int count * (INTERVAL / 3600) * (1 - 0.99))) 600)"
    by simp
  have "1 / (of_int count * (INTERVAL / 3600) * (1 - 0.99)) = 100 / (of_int count :: real)"
    by (simp add: INTERVAL_def)
  moreover have "(1::real) \<le> 100 / of_int count * 600 + 0.5"
  proof -
    have "(1/2) * (of_int count :: real) \<le> 60000" using c by simp
    then have "1/2 \<le> 60000 / (of_int count :: real)"
      using c by (subst pos_le_divide_eq) simp_all
    then show ?thesis by simp
  qed
  ultimately have "1 \<le> secs (1 / (of_int count * (INTERVAL / 3600) * (1 - 0.99))) 600"
    by (simp add: secs_def py_int_def le_floor_iff)
  with e show ?thesis by simp
qed

lemma erlang_b_overloaded:
  assumes "1 \<le> count" "count \<le> 65535"
  shows "\<exists>b. erlang_b (of_int count) 1000000000 = Inr b \<and> \<not> b < 0.001"
proof -
  define k where "k = nat count"
  have k: "real k \<le> 65535" using assms by (simp add: k_def)
  have "erlang_b (of_int count) 1000000000 = Inr (erlang_b_rec 1000000000 k)"
    using erlang_b_eq_rec[of "of_int count" 1000000000] assms by (simp add: k_def)
  moreover have "1000000000 * (1 - erlang_b_rec 1000000000 k) \<le> real k"
    using erlang_b_rec_bounds[of 1000000000 k] by simp
  then have "\<not> erlang_b_rec 1000000000 k < 0.001" using k by simp
  ultimately show ?thesis by simp
qed

subsection \<open>Utilisation capping from one agent upwards\<close>

lemma py_int_ge0: "0 \<le> x \<Longrightarrow> 0 \<le> py_int x"
  by (simp add: py_int_def)

lemma queue_time_capped:
  assumes "0 < agents" "0 \<le> calls_per_hour" "0 < aht"
    and "agents \<le> calls_per_hour / (INTERVAL / aht)"
  shows "queue_time agents calls_per_hour aht =
           Inr (secs (1 / (agents * (INTERVAL / aht) * (1 - 0.99))) 600) \<and>
         0 \<le> secs (1 / (agents * (INTERVAL / aht) * (1 - 0.99))) 600"
proof -
  have dd: "0 < INTERVAL / aht" using assms(3) by (simp add: INTERVAL_def)
  have a0: "0 < agents" using assms(1) by simp
  have v: "(agents < 0 \<or> calls_per_hour < 0 \<or> aht \<le> 0) = False"
    using assms a0 by simp
  have dnz: "INTERVAL / aht \<noteq> 0" "aht \<noteq> 0" "agents \<noteq> 0"
    using assms(3) a0 by (simp_all add: INTERVAL_def)
  have 1: "py_div INTERVAL aht = Inr (INTERVAL / aht)"
    by (rule py_div_nz[OF dnz(2)])
  have 2: "py_div calls_per_hour (INTERVAL / aht) = Inr (calls_per_hour / (INTERVAL / aht))"
    by (rule py_div_nz[OF dnz(1)])
  have 3: "py_div (calls_per_hour / (INTERVAL / aht)) agents =
             Inr (calls_per_hour / (INTERVAL / aht) / agents)"
    by (rule py_div_nz[OF dnz(3)])
  from assms(4) have "1 * agents \<le> calls_per_hour / (INTERVAL / aht)"
    by (simp only: mult_1)
  then have "1 \<le> calls_per_hour / (INTERVAL / aht) / agents"
    by (simp only: pos_le_divide_eq[OF a0])
  then have u: "(1 \<le> calls_per_hour / (INTERVAL / aht) / agents) = True"
    by (simp only: eq_True)
  have pos: "0 < agents * (INTERVAL / aht) * (1 - 0.99)"
    using a0 dd by (intro mult_pos_pos) simp_all
  then have "agents * (INTERVAL / aht) * (1 - 0.99) \<noteq> 0"
    by (metis less_irrefl)
  then have 5: "py_div 1 (agents * (INTERVAL / aht) * (1 - 0.99)) =
             Inr (1 / (agents * (INTERVAL / aht) * (1 - 0.99)))"
    by (rule py_div_nz)
  have e: "queue_time agents calls_per_hour aht =
           Inr (secs (1 / (agents * (INTERVAL / aht) * (1 - 0.99))) 600)"
    unfolding queue_time_def
    by (simp only: v if_False 1 2 3 u if_True Let_def 5 bindE_Inr wrap_Inr)
  have "0 \<le> 1 / (agents * (INTERVAL / aht) * (1 - 0.99))"
    by (rule divide_nonneg_pos[OF zero_le_one pos])
  then have "0 \<le> 1 / (agents * (INTERVAL / aht) * (1 - 0.99)) * 600"
    by (rule mult_nonneg_nonneg) simp
  then have "0 \<le> 1 / (agents * (INTERVAL / aht) * (1 - 0.99)) * 600 + 0.5"
    by (rule add_nonneg_nonneg) simp
  then have "0 \<le> secs (1 / (agents * (INTERVAL / aht) * (1 - 0.99))) 600"
    unfolding secs_def by (rule py_int_ge0)
  with e show ?thesis by simp
qed

lemma service_time_capped:
  assumes "1 \<le> agents" "0 \<le> sla" "0 \<le> calls_per_hour" "0 < aht"
    and "agents \<le> calls_per_hour / (INTERVAL / aht)"
  shows "service_time agents sla calls_per_hour aht =
           Inr (py_int (1 / (agents * (INTERVAL / aht) * (1 - 0.99)) * INTERVAL * sla)) \<and>
         0 \<le> py_int (1 / (agents * (INTERVAL / aht) * (1 - 0.99)) * INTERVAL * sla)"
proof -
  have dd: "0 < INTERVAL / aht" using assms(4) by (simp add: INTERVAL_def)
  have a0: "0 < agents" using assms(1) by simp
  have v: "(agents < 0 \<or> sla < 0 \<or> calls_per_hour < 0 \<or> aht \<le> 0) = False"
    using assms a0 by simp
  have dnz: "INTERVAL / aht \<noteq> 0" "aht \<noteq> 0" "agents \<noteq> 0"
    using assms(4) a0 by (simp_all add: INTERVAL_def)
  have 1: "py_div INTERVAL aht = Inr (INTERVAL / aht)"
    by (rule py_div_nz[OF dnz(2)])
  have 2: "py_div calls_per_hour (INTERVAL / aht) = Inr (calls_per_hour / (INTERVAL / aht))"
    by (rule py_div_nz[OF dnz(1)])
  have 3: "py_div (calls_per_hour / (INTERVAL / aht)) agents =
             Inr (calls_per_hour / (INTERVAL / aht) / agents)"
    by (rule py_div_nz[OF dnz(3)])
  from assms(5) have "1 * agents \<le> calls_per_hour / (INTERVAL / aht)"
    by (simp only: mult_1)
  then have "1 \<le> calls_per_hour / (INTERVAL / aht) / agents"
    by (simp only: pos_le_divide_eq[OF a0])
  then have u: "(1 \<le> calls_per_hour / (INTERVAL / aht) / agents) = True"
    by (simp only: eq_True)
  have 4: "erlang_c agents (calls_per_hour / (INTERVAL / aht)) = Inr 1"
    using assms(1,5) by (rule erlang_c_saturated)
  have c: "((1::real) < 1 - sla) = False" using assms(2) by simp
  have pos: "0 < agents * (INTERVAL / aht) * (1 - 0.99)"
    using a0 dd by (intro mult_pos_pos) simp_all
  then have "agents * (INTERVAL / aht) * (1 - 0.99) \<noteq> 0"
    by (metis less_irrefl)
  then have 5: "py_div 1 (agents * (INTERVAL / aht) * (1 - 0.99)) =
             Inr (1 / (agents * (INTERVAL / aht) * (1 - 0.99)))"
    by (rule py_div_nz)
  have 6: "py_div (1 - sla) 1 = Inr (1 - sla)" by (simp add: py_div_def)
  define q where "q = 1 / (agents * (INTERVAL / aht) * (1 - 0.99)) * INTERVAL"
  have r0: "0 \<le> 1 / (agents * (INTERVAL / aht) * (1 - 0.99))"
    by (rule divide_nonneg_pos[OF zero_le_one pos])
  have I0: "0 \<le> INTERVAL" by (simp add: INTERVAL_def)
  have q0: "0 \<le> q" unfolding q_def by (rule mult_nonneg_nonneg[OF r0 I0])
  have st: "0 \<le> q * sla" using q0 assms(2) by simp
  have e: "service_time agents sla calls_per_hour aht =
           Inr (py_int (q * (1 - (1 - sla)) + (if q * (1 - (1 - sla)) < 0 then 1 else 0)))"
    unfolding service_time_def q_def
    by (simp only: v if_False 1 2 3 4 c u if_True Let_def 5 6 bindE_Inr wrap_Inr)
  have "q * (1 - (1 - sla)) = q * sla" by simp
  with e st have "service_time agents sla calls_per_hour aht = Inr (py_int (q * sla))"
    by simp
  moreover have "0 \<le> py_int (q * sla)" using st by (simp add: py_int_def)
  ultimately show ?thesis by (simp add: q_def)
qed

subsection \<open>The staffing ladder\<close>

lemma erlang_c_stable:
  assumes "1 \<le> servers" "0 \<le> intensity" "intensity < servers"
  shows "\<exists>c. erlang_c servers intensity = Inr c \<and> 0 \<le> c \<and> c \<le> 1"
proof -
  from erlang_b_returns[OF assms(1,2)] obtain B where
    B: "erlang_b servers intensity = Inr B" "0 \<le> B" "B \<le> 1" by blast
  have s0: "0 < servers" using assms(1) by simp
  define u where "u = intensity / servers"
  have u: "0 \<le> u" "u < 1" using assms s0 by (simp_all add: u_def)
  have "0 \<le> u * B" using u(1) B(2) by simp
  then have den: "0 < u * B + (1 - u)" using u(2) by simp
  have "erlang_c servers intensity = Inr (min_max (B / (u * B + (1 - u))) 0 1)"
    using assms s0 den by (simp add: erlang_c_def B(1) py_div_def u_def)
  then show ?thesis using min_max_unit by simp
qed

lemma ladder_sample_returns:
  assumes "1 \<le> n" "0 \<le> t" "t < of_int n" "0 < aht"
  shows "\<exists>c. erlang_c (of_int n) t = Inr c \<and> 0 \<le> c \<and> c \<le> 1 \<and>
             ladder_sample st t aht n =
               Inr (if 1 - c * exp ((t - of_int n) * st / aht) < 0 then 0
                    else 1 - c * exp ((t - of_int n) * st / aht))"
proof -
  have n1: "(1::real) \<le> of_int n" using assms(1) by simp
  from erlang_c_stable[OF n1 assms(2,3)] obtain c where
    c: "erlang_c (of_int n) t = Inr c" "0 \<le> c" "c \<le> 1" by blast
  have "0 \<le> c * exp ((t - of_int n) * st / aht)" using c(2) by simp
  then have le1: "1 - c * exp ((t - of_int n) * st / aht) \<le> 1" by simp
  have "ladder_sample st t aht n =
               Inr (if 1 - c * exp ((t - of_int n) * st / aht) < 0 then 0
                    else 1 - c * exp ((t - of_int n) * st / aht))"
    using assms(4) le1 by (simp add: ladder_sample_def c(1) py_div_def Let_def)
  with c show ?thesis by blast
qed

lemma fractional_agents_loop_step:
  assumes "1 \<le> n" "0 \<le> t" "t < of_int n" "0 < aht"
    and "ladder_sample st t aht n = Inr s"
  shows "fractional_agents_loop (Suc k) sla st t aht n s0 l0 =
           (if s \<ge> sla \<or> s > 1 - config_MAX_ACCURACY then Inr (n, s, s0)
            else fractional_agents_loop k sla st t aht (n + 1) s s0)"
proof -
  from ladder_sample_returns[OF assms(1-4), of st] assms(5) obtain c where
    c: "erlang_c (of_int n) t = Inr c" "0 \<le> c"
      "s = (if 1 - c * exp ((t - of_int n) * st / aht) < 0 then 0
            else 1 - c * exp ((t - of_int n) * st / aht))"
    by auto
  have n0: "(of_int n :: real) \<noteq> 0" "0 < (of_int n :: real)" using assms(1) by simp_all
  have u: "t / of_int n < 1" using assms(3) n0(2) by simp
  have "0 \<le> c * exp ((t - of_int n) * st / aht)" using c(2) by simp
  then have le1: "1 - c * exp ((t - of_int n) * st / aht) \<le> 1" by simp
  show ?thesis
    using assms(4) n0 u le1
    by (simp add: c(1) c(3) py_div_def Let_def)
qed

lemma agents_required_loop_step:
  assumes "1 \<le> n" "0 \<le> t" "t < of_int n" "0 < aht"
    and "ladder_sample st t aht n = Inr s"
  shows "agents_required_loop (Suc k) sla st t aht n =
           (if s \<ge> sla \<or> s > 1 - config_MAX_ACCURACY then Inr n
            else agents_required_loop k sla st t aht (n + 1))"
proof -
  from ladder_sample_returns[OF assms(1-4), of st] assms(5) obtain c where
    c: "erlang_c (of_int n) t = Inr c" "0 \<le> c"
      "s = (if 1 - c * exp ((t - of_int n) * st / aht) < 0 then 0
            else 1 - c * exp ((t - of_int n) * st / aht))"
    by auto
  have n0: "(of_int n :: real) \<noteq> 0" "0 < (of_int n :: real)" using assms(1) by simp_all
  have u: "t / of_int n < 1" using assms(3) n0(2) by simp
  show ?thesis
    using assms(4) n0 u
    by (simp add: c(1) c(3) py_div_def Let_def)
qed

lemma ladders_agree:
  assumes "0 \<le> t" "0 < aht"
  shows "1 \<le> n \<Longrightarrow> t < of_int n \<Longrightarrow> s0 \<le> sla \<Longrightarrow>
    \<exists>N s l. fractional_agents_loop k sla st t aht n s0 l0 = Inr (N, s, l) \<and>
            agents_required_loop k sla st t aht n = Inr N \<and> n \<le> N \<and>
            (sla < s \<longrightarrow> ladder_sample st t aht N = Inr s \<and>
               (if N = n then l = s0
                else ladder_sample st t aht (N - 1) = Inr l \<and> l < sla))"
proof (induction k arbitrary: n s0 l0)
  case 0
  then show ?case by simp
next
  case (Suc k)
  from ladder_sample_returns[OF Suc.prems(1) assms(1) Suc.prems(2) assms(2), of st]
  obtain s' where s': "ladder_sample st t aht n = Inr s'" by blast
  note fs = fractional_agents_loop_step[OF Suc.prems(1) assms(1) Suc.prems(2) assms(2) s',
              of k sla s0 l0]
  note rs = agents_required_loop_step[OF Suc.prems(1) assms(1) Suc.prems(2) assms(2) s',
              of k sla]
  show ?case
  proof (cases "s' \<ge> sla \<or> s' > 1 - config_MAX_ACCURACY")
    case True
    then show ?thesis using fs rs s' by simp
  next
    case False
    then have lt: "s' < sla" by simp
    have n1: "1 \<le> n + 1" "t < of_int (n + 1)" using Suc.prems by simp_all
    from Suc.IH[OF n1 less_imp_le[OF lt], of s0]
    obtain N s l where
      r: "fractional_agents_loop k sla st t aht (n + 1) s' s0 = Inr (N, s, l)"
         "agents_required_loop k sla st t aht (n + 1) = Inr N" "n + 1 \<le> N"
         "sla < s \<longrightarrow> ladder_sample st t aht N = Inr s \<and>
               (if N = n + 1 then l = s'
                else ladder_sample st t aht (N - 1) = Inr l \<and> l < sla)"
      by blast
    have "sla < s \<longrightarrow> ladder_sample st t aht N = Inr s \<and>
               (if N = n then l = s0
                else ladder_sample st t aht (N - 1) = Inr l \<and> l < sla)"
      using r(3,4) s' lt by (cases "N = n + 1") auto
    with r(1,2,3) False fs rs show ?thesis by simp
  qed
qed

lemma staffing_start_returns:
  "0 \<le> t \<Longrightarrow> 1 \<le> n \<Longrightarrow> u = t / of_int n \<Longrightarrow>
   \<exists>N0. staffing_start t n u = Inr N0 \<and> n \<le> N0 \<and> t < of_int N0"
proof (induction t n u rule: staffing_start.induct)
  case (1 traffic_rate no_agents utilisation)
  show ?case
  proof (cases "utilisation \<ge> 1")
    case False
    have n0: "0 < (of_int no_agents :: real)" using "1.prems"(2) by simp
    have "traffic_rate / of_int no_agents < 1" using False "1.prems"(3) by simp
    then have "traffic_rate < of_int no_agents" using n0 by simp
    moreover have "staffing_start traffic_rate no_agents utilisation = Inr no_agents"
      using False by (subst staffing_start.simps) simp
    ultimately show ?thesis by simp
  next
    case True
    have nz: "(of_int (no_agents + 1) :: real) \<noteq> 0" using "1.prems"(2) by simp
    have "1 \<le> no_agents + 1" using "1.prems"(2) by simp
    from "1.IH"[OF True nz "1.prems"(1) this refl]
    obtain N0 where N0: "staffing_start traffic_rate (no_agents + 1)
                           (traffic_rate / of_int (no_agents + 1)) = Inr N0"
        "no_agents + 1 \<le> N0" "traffic_rate < of_int N0" by blast
    have "staffing_start traffic_rate no_agents utilisation =
            staffing_start traffic_rate (no_agents + 1) (traffic_rate / of_int (no_agents + 1))"
      using True nz by (subst staffing_start.simps) simp
    with N0 show ?thesis by simp
  qed
qed

lemma initial_agents_ge1: "1 \<le> initial_agents calls_per_hour aht"
  by (simp add: initial_agents_def Let_def)

lemma erlang_c_1_half: "erlang_c 1 (1/2) = Inr (1/2)"
  by (simp add: eval_defs)

lemma staffing_start_half: "staffing_start (1/2) 1 (1/2) = Inr 1"
  by (subst staffing_start.simps) simp

lemma hundred_Suc: "(100::nat) = Suc 99"
  by simp

lemma agents_required_loop_low_target:
  "agents_required_loop 100 (2/5) 0 (1/2) 180 1 = Inr 1"
  by (subst hundred_Suc, subst agents_required_loop.simps(2))
     (simp add: py_div_def erlang_c_1_half config_MAX_ACCURACY_def Let_def)

lemma fractional_agents_loop_low_target:
  "fractional_agents_loop 100 (2/5) 0 (1/2) 180 1 0 0 = Inr (1, 1/2, 0)"
  by (subst hundred_Suc, subst fractional_agents_loop.simps(2))
     (simp add: py_div_def erlang_c_1_half config_MAX_ACCURACY_def Let_def)

lemma agents_required_low_target: "agents_required (2/5) 0 10 180 = Inr 1"
  by (simp add: agents_required_def INTERVAL_def py_div_def py_int_def staffing_start_half
        agents_required_loop_low_target Let_def)

lemma fractional_agents_low_target: "fractional_agents (2/5) 0 10 180 = Inr (4/5)"
  by (simp add: fractional_agents_def INTERVAL_def py_div_def py_int_def staffing_start_half
        fractional_agents_loop_low_target Let_def)

subsection \<open>The representative staffing case\<close>

lemma erlang_c_16_15: "erlang_c 16 15 = Inr (72081298828125/98731231639051)"
  by (simp add: eval_defs upto.simps)

lemma erlang_c_17_15: "erlang_c 17 15 = Inr (1081219482421875/2078179930027757)"
  by (simp add: eval_defs upto.simps)

lemma erlang_c_18_15: "erlang_c 18 15 = Inr (5406097412109375/14961480699181247)"
  by (simp add: eval_defs upto.simps)

lemma erlang_c_19_15: "erlang_c 19 15 = Inr (27030487060546875/110681683239934351)"
  by (simp add: eval_defs upto.simps)

lemma sla_metric_eq_sample:
  assumes "1 \<le> n" "0 \<le> calls_per_hour" "0 < aht" "0 \<le> st"
  shows "sla_metric (of_int n) st calls_per_hour aht =
           wrap (ladder_sample st (calls_per_hour / (INTERVAL / aht)) aht n)"
proof -
  have v: "(of_int n < (0::real) \<or> calls_per_hour < 0 \<or> aht \<le> 0 \<or> st < 0) = False"
    using assms by simp
  have dnz: "INTERVAL / aht \<noteq> 0" "aht \<noteq> 0" "(of_int n :: real) \<noteq> 0"
    using assms(1,3) by (simp_all add: INTERVAL_def)
  have 1: "py_div INTERVAL aht = Inr (INTERVAL / aht)"
    by (rule py_div_nz[OF dnz(2)])
  have 2: "py_div calls_per_hour (INTERVAL / aht) = Inr (calls_per_hour / (INTERVAL / aht))"
    by (rule py_div_nz[OF dnz(1)])
  have 3: "py_div (calls_per_hour / (INTERVAL / aht)) (of_int n) =
             Inr (calls_per_hour / (INTERVAL / aht) / of_int n)"
    by (rule py_div_nz[OF dnz(3)])
  have clamp: "min_max x 0 1 = (if (if x < 0 then 0 else x) > 1 then 1
                                 else (if x < 0 then 0 else x))" for x :: real
    by (simp add: min_max_def)
  show ?thesis
    unfolding sla_metric_def ladder_sample_def
    by (simp only: v if_False 1 2 3 bindE_Inr clamp Let_def)
qed

lemma ladder_sample_below:
  assumes "1 \<le> n" "0 \<le> t" "t < of_int n" "0 < aht"
    and "erlang_c (of_int n) t = Inr c" "0 < target"
    and "1 - target < c * (1 + (t - of_int n) * st / aht)"
  shows "\<exists>s. ladder_sample st t aht n = Inr s \<and> s < target"
proof -
  from ladder_sample_returns[OF assms(1-4), of st] assms(5)
  have c: "0 \<le> c" and
    e: "ladder_sample st t aht n =
               Inr (if 1 - c * exp ((t - of_int n) * st / aht) < 0 then 0
                    else 1 - c * exp ((t - of_int n) * st / aht))"
    by auto
  have "c * (1 + (t - of_int n) * st / aht) \<le> c * exp ((t - of_int n) * st / aht)"
    using c by (intro mult_left_mono exp_ge_add_one_self)
  with assms(7) have "1 - c * exp ((t - of_int n) * st / aht) < target" by linarith
  with assms(6) e show ?thesis by simp
qed

lemma ladder_sample_above:
  assumes "1 \<le> n" "0 \<le> t" "t < of_int n" "0 < aht"
    and "erlang_c (of_int n) t = Inr c" "0 \<le> target"
    and "0 < 1 - (t - of_int n) * st / aht"
    and "c \<le> (1 - target) * (1 - (t - of_int n) * st / aht)"
  shows "\<exists>s. ladder_sample st t aht n = Inr s \<and> target \<le> s"
proof -
  define x where "x = (t - of_int n) * st / aht"
  from ladder_sample_returns[OF assms(1-4), of st] assms(5)
  have c: "0 \<le> c" and
    e: "ladder_sample st t aht n = Inr (if 1 - c * exp x < 0 then 0 else 1 - c * exp x)"
    by (auto simp: x_def)
  have "1 - x \<le> exp (- x)" using exp_ge_add_one_self[of "- x"] by simp
  then have "(1 - x) * exp x \<le> exp (- x) * exp x"
    by (intro mult_right_mono) simp_all
  then have b: "(1 - x) * exp x \<le> 1" by (simp add: exp_minus field_simps)
  have "c * exp x \<le> (1 - target) * (1 - x) * exp x"
    using assms(8) by (intro mult_right_mono) (simp_all add: x_def)
  also have "\<dots> = (1 - target) * ((1 - x) * exp x)" by simp
  also have "\<dots> \<le> (1 - target) * 1"
  proof (rule mult_left_mono[OF b])
    have "0 \<le> c" by (rule c)
    also have "c \<le> (1 - target) * (1 - x)" using assms(8) by (simp add: x_def)
    finally have "0 \<le> (1 - target) * (1 - x)" .
    then show "0 \<le> 1 - target"
      using assms(7) by (simp add: x_def zero_le_mult_iff)
  qed
  finally have "target \<le> 1 - c * exp x" by simp
  with assms(6) e show ?thesis by simp
qed

lemma sla_metric_saturated:
  assumes "1 \<le> n" "0 \<le> calls_per_hour" "0 < aht" "0 \<le> st"
    and "of_int n \<le> calls_per_hour / (INTERVAL / aht)"
  shows "sla_metric (of_int n) st calls_per_hour aht = Inr 0"
proof -
  define t where "t = calls_per_hour / (INTERVAL / aht)"
  have n1: "(1::real) \<le> of_int n" using assms(1) by simp
  have c: "erlang_c (of_int n) t = Inr 1"
    unfolding t_def by (rule erlang_c_saturated[OF n1 assms(5)])
  have "0 \<le> (t - of_int n) * st" using assms(4,5) by (simp add: t_def)
  then have "0 \<le> (t - of_int n) * st / aht" using assms(3) by simp
  then have "1 \<le> exp ((t - of_int n) * st / aht)" by simp
  then have "ladder_sample st t aht n = Inr 0"
    using assms(3) by (simp add: ladder_sample_def c py_div_def Let_def)
  then show ?thesis
    unfolding sla_metric_eq_sample[OF assms(1-4)] t_def by simp
qed

lemma agents_required_loop_continue:
  assumes "1 \<le> n" "0 \<le> t" "t < of_int n" "0 < aht"
    and "ladder_sample st t aht n = Inr s" "s < sla" "sla \<le> 1 - config_MAX_ACCURACY"
  shows "agents_required_loop (Suc k) sla st t aht n =
           agents_required_loop k sla st t aht (n + 1)"
  using agents_required_loop_step[OF assms(1-5), of k sla] assms(6,7) by simp

lemma agents_required_loop_stop:
  assumes "1 \<le> n" "0 \<le> t" "t < of_int n" "0 < aht"
    and "ladder_sample st t aht n = Inr s" "sla \<le> s"
  shows "agents_required_loop (Suc k) sla st t aht n = Inr n"
  using agents_required_loop_step[OF assms(1-5), of k sla] assms(6) by simp

lemma representative_samples:
  "\<exists>s. ladder_sample 20 15 180 16 = Inr s \<and> s < 4/5"
  "\<exists>s. ladder_sample 20 15 180 17 = Inr s \<and> s < 4/5"
  "\<exists>s. ladder_sample 20 15 180 18 = Inr s \<and> s < 4/5"
  "\<exists>s. ladder_sample 20 15 180 19 = Inr s \<and> 4/5 \<le> s"
proof -
  have c16: "erlang_c (of_int 16) 15 = Inr (72081298828125/98731231639051)"
    by (simp add: erlang_c_16_15)
  have c17: "erlang_c (of_int 17) 15 = Inr (1081219482421875/2078179930027757)"
    by (simp add: erlang_c_17_15)
  have c18: "erlang_c (of_int 18) 15 = Inr (5406097412109375/14961480699181247)"
    by (simp add: erlang_c_18_15)
  have c19: "erlang_c (of_int 19) 15 = Inr (27030487060546875/110681683239934351)"
    by (simp add: erlang_c_19_15)
  show "\<exists>s. ladder_sample 20 15 180 16 = Inr s \<and> s < 4/5"
    by (rule ladder_sample_below[where aht = 180 and target = "4/5" and st = 20,
          OF _ _ _ _ c16]) simp_all
  show "\<exists>s. ladder_sample 20 15 180 17 = Inr s \<and> s < 4/5"
    by (rule ladder_sample_below[where aht = 180 and target = "4/5" and st = 20,
          OF _ _ _ _ c17]) simp_all
  show "\<exists>s. ladder_sample 20 15 180 18 = Inr s \<and> s < 4/5"
    by (rule ladder_sample_below[where aht = 180 and target = "4/5" and st = 20,
          OF _ _ _ _ c18]) simp_all
  show "\<exists>s. ladder_sample 20 15 180 19 = Inr s \<and> 4/5 \<le> s"
    by (rule ladder_sample_above[where aht = 180 and target = "4/5" and st = 20,
          OF _ _ _ _ c19]) simp_all
qed

lemma staffing_start_15: "staffing_start 15 15 1 = Inr 16"
  by (subst staffing_start.simps) simp

lemma agents_required_loop_representative:
  "agents_required_loop 1600 (4/5) 20 15 180 16 = Inr 19"
proof -
  have acc: "(4/5 :: real) \<le> 1 - config_MAX_ACCURACY" by (simp add: config_MAX_ACCURACY_def)
  from representative_samples obtain s16 s17 s18 s19 where
    s: "ladder_sample 20 15 180 16 = Inr s16" "s16 < 4/5"
       "ladder_sample 20 15 180 17 = Inr s17" "s17 < 4/5"
       "ladder_sample 20 15 180 18 = Inr s18" "s18 < 4/5"
       "ladder_sample 20 15 180 19 = Inr s19" "4/5 \<le> s19"
    by blast
  have "agents_required_loop 1600 (4/5) 20 15 180 16 =
          agents_required_loop 1599 (4/5) 20 15 180 17"
    using agents_required_loop_continue[of 16 15 180 20 s16 "4/5" 1599] s(1,2) acc by simp
  also have "\<dots> = agents_required_loop 1598 (4/5) 20 15 180 18"
    using agents_required_loop_continue[of 17 15 180 20 s17 "4/5" 1598] s(3,4) acc by simp
  also have "\<dots> = agents_required_loop 1597 (4/5) 20 15 180 19"
    using agents_required_loop_continue[of 18 15 180 20 s18 "4/5" 1597] s(5,6) acc by simp
  also have "\<dots> = Inr 19"
    using agents_required_loop_stop[of 19 15 180 20 s19 "4/5" 1596] s(7,8) by simp
  finally show ?thesis .
qed

lemma agents_required_representative: "agents_required (4/5) 20 300 180 = Inr 19"
  by (simp add: agents_required_def INTERVAL_def py_div_def py_int_def staffing_start_15
        agents_required_loop_representative Let_def)

lemma traffic_representative: "300 / (INTERVAL / 180) = (15::real)"
  by (simp add: INTERVAL_def)

lemma sla_metric_representative:
  assumes "1 \<le> n"
  shows "sla_metric (of_int n) 20 300 180 = wrap (ladder_sample 20 15 180 n)"
  using sla_metric_eq_sample[OF assms, of 300 180 20, unfolded traffic_representative]
  by simp

lemma sla_metric_below_19:
  assumes "M < 19"
  shows "\<not> (\<exists>u. sla_metric (of_int M) 20 300 180 = Inr u \<and> 4/5 \<le> u)"
proof -
  consider "M < 0" | "M = 0" | "1 \<le> M" "M \<le> 15" | "M = 16" | "M = 17" | "M = 18"
    using assms by linarith
  then show ?thesis
  proof cases
    case 1
    then show ?thesis by (simp add: sla_metric_def)
  next
    case 2
    then show ?thesis by (simp add: sla_metric_def INTERVAL_def py_div_def)
  next
    case 3
    have "of_int M \<le> 300 / (INTERVAL / 180)"
      unfolding traffic_representative using 3(2) by simp
    from sla_metric_saturated[OF 3(1) _ _ _ this, of 20] show ?thesis by simp
  next
    case 4
    then show ?thesis
      using sla_metric_representative[of 16] representative_samples(1) by auto
  next
    case 5
    then show ?thesis
      using sla_metric_representative[of 17] representative_samples(2) by auto
  next
    case 6
    then show ?thesis
      using sla_metric_representative[of 18] representative_samples(3) by auto
  qed
qed

section \<open>Claims\<close>

text \<open>
  C1. For \<open>sla = 0.8\<close>, \<open>service_time = 20\<close>, \<open>calls_per_hour = 300\<close>, \<open>aht = 180\<close> (fifteen
  erlangs) \<open>agents_required\<close> returns \<open>N = 19\<close>; \<open>sla_metric\<close> returns at least \<open>0.8\<close> at
  \<open>N\<close> and less than \<open>0.8\<close> at \<open>N - 1\<close>, and \<open>N\<close> is minimal: for no integer below it does
  \<open>sla_metric\<close> return a value of at least \<open>0.8\<close>.
\<close>

theorem agents_required_minimal_representative:
  "agents_required 0.8 20 300 180 = Inr 19 \<and>
   (\<exists>v. sla_metric 19 20 300 180 = Inr v \<and> 0.8 \<le> v) \<and>
   (\<exists>w. sla_metric (19 - 1) 20 300 180 = Inr w \<and> w < 0.8) \<and>
   (\<forall>M::int. M < 19 \<longrightarrow> \<not> (\<exists>u. sla_metric (of_int M) 20 300 180 = Inr u \<and> 0.8 \<le> u))"
proof (intro conjI allI impI)
  show "agents_required 0.8 20 300 180 = Inr 19"
    using agents_required_representative by simp
  show "\<exists>v. sla_metric 19 20 300 180 = Inr v \<and> 0.8 \<le> v"
    using sla_metric_representative[of 19] representative_samples(4) by auto
  show "\<exists>w. sla_metric (19 - 1) 20 300 180 = Inr w \<and> w < 0.8"
    using sla_metric_representative[of 18] representative_samples(3) by auto
  fix M :: int assume "M < 19"
  from sla_metric_below_19[OF this]
  show "\<not> (\<exists>u. sla_metric (of_int M) 20 300 180 = Inr u \<and> 0.8 \<le> u)" by simp
qed

theorem agents_required_minimal_representative_witness:
  "agents_required 0.8 20 300 180 = Inr 19 \<and>
   \<not> (\<exists>u. sla_metric 17 20 300 180 = Inr u \<and> 0.8 \<le> u)"
proof -
  note t = agents_required_minimal_representative
  from t have a: "agents_required 0.8 20 300 180 = Inr 19" by (rule conjunct1)
  from t have "\<forall>M::int. M < 19 \<longrightarrow>
                 \<not> (\<exists>u. sla_metric (of_int M) 20 300 180 = Inr u \<and> 0.8 \<le> u)"
    by (intro allI impI) blast
  from this[rule_format, of 17]
  have "\<not> (\<exists>u. sla_metric (of_int 17) 20 300 180 = Inr u \<and> 0.8 \<le> u)" by simp
  then have "\<not> (\<exists>u. sla_metric 17 20 300 180 = Inr u \<and> 0.8 \<le> u)" by simp
  with a show ?thesis by (rule conjI)
qed

text \<open>
  C2 (failing input). With zero servers the loop of \<open>erlang_b\<close> never runs, \<open>b\<close> is never
  assigned, and the final \<open>min_max(b, 0.0, 1.0)\<close> raises \<open>UnboundLocalError\<close> instead of
  returning the value \<open>B(0) = 1.0\<close> of the recurrence.
\<close>

theorem erlang_b_zero_servers_raises: "erlang_b 0 1 = Inl UnboundLocalError"
  by (simp add: erlang_b_def py_range_def py_int_def)



text \<open>
  C4. For a fixed intensity \<open>\<ge> 0\<close> and integers \<open>n2 \<ge> n1 \<ge> 1\<close>, both calls of \<open>erlang_b\<close>
  return a value and \<open>erlang_b(n2, intensity) \<le> erlang_b(n1, intensity)\<close>.
\<close>

theorem erlang_b_nonincreasing:
  assumes "0 \<le> intensity" "1 \<le> n1" "n1 \<le> n2"
  shows "\<exists>b1 b2. erlang_b (of_int n1) intensity = Inr b1 \<and>
                 erlang_b (of_int n2) intensity = Inr b2 \<and> b2 \<le> b1"
proof -
  have mono: "erlang_b_rec intensity (k + d) \<le> erlang_b_rec intensity k" for k d
  proof (induction d)
    case 0
    show ?case by simp
  next
    case (Suc d)
    have "erlang_b_rec intensity (Suc (k + d)) \<le> erlang_b_rec intensity (k + d)"
      using assms(1) by (rule erlang_b_rec_mono_step)
    with Suc show ?case by simp
  qed
  have e1: "erlang_b (of_int n1) intensity = Inr (erlang_b_rec intensity (nat n1))"
    using erlang_b_eq_rec[of "of_int n1" intensity] assms by simp
  have e2: "erlang_b (of_int n2) intensity = Inr (erlang_b_rec intensity (nat n2))"
    using erlang_b_eq_rec[of "of_int n2" intensity] assms by simp
  have "nat n2 = nat n1 + (nat n2 - nat n1)" using assms by simp
  then have "erlang_b_rec intensity (nat n2) \<le> erlang_b_rec intensity (nat n1)"
    using mono[of "nat n1" "nat n2 - nat n1"] by simp
  with e1 e2 show ?thesis by simp
qed

theorem erlang_b_nonincreasing_witness:
  "\<exists>b1 b2. erlang_b 1 1 = Inr b1 \<and> erlang_b 2 1 = Inr b2 \<and> b2 \<le> b1"
  using erlang_b_nonincreasing[of 1 1 2] by simp

text \<open>
  C10. The result of \<open>looping_traffic\<close> does not depend on its \<open>max_intensity\<close> argument:
  the loop only ever assigns to it.
\<close>

theorem looping_traffic_ignores_max_intensity:
  "looping_traffic trunks blocking increment m1 min_intensity =
   looping_traffic trunks blocking increment m2 min_intensity"
  unfolding looping_traffic_def by (rule looping_traffic_loop_max_irrelevant)

text \<open>
  C6 (as stated, refuted). The claim has the step size passed to \<open>looping_traffic\<close> be the
  largest power of ten that is \<open>\<le> upperBound/100\<close>. For \<open>traffic(1, 0.5)\<close> the upper bound is
  \<open>1\<close> and the step size is \<open>1\<close>, which is not \<open>\<le> 1/100\<close>.
\<close>

theorem traffic_step_size_counterexample:
  "traffic 1 (1/2) = Some (looping_traffic 1 (1/2) 1 1 0) \<and>
   erlang_b 1 1 = Inr (1/2) \<and>
   traffic_double 1 (1/2) 1 (1/2) = Some (Inr 1) \<and>
   traffic_incr 1 1 = Some 1 \<and>
   \<not> (\<exists>incr. traffic_incr 1 1 = Some incr \<and> incr \<le> 1 / 100)"
  by (simp add: traffic_1_half erlang_b_1_1 traffic_double_1_half traffic_incr_1_1)

text \<open>
  C6 (amended). \<open>traffic(servers, blocking)\<close> returns \<open>0\<close> whenever \<open>servers < 1\<close> or
  \<open>blocking < 0\<close>; otherwise, once the doubling loop has returned the upper bound \<open>max_i\<close>,
  the step size passed to \<open>looping_traffic\<close> is the smallest power of ten \<open>10^k\<close>, \<open>k \<ge> 0\<close>,
  that is strictly greater than \<open>max_i/100\<close>.
\<close>

theorem traffic_step_size:
  "(servers < 1 \<or> blocking < 0 \<longrightarrow> traffic servers blocking = Some (Inr 0)) \<and>
   (\<not> (servers < 1 \<or> blocking < 0) \<longrightarrow>
      erlang_b servers (of_int (py_int servers)) = Inr b \<longrightarrow>
      traffic_double servers blocking (of_int (py_int servers)) b = Some (Inr max_i) \<longrightarrow>
      (\<exists>k. traffic_incr 1 max_i = Some (10 ^ k) \<and>
           max_i / 100 < 10 ^ k \<and> (\<forall>i<k. (10::real) ^ i \<le> max_i / 100) \<and>
           traffic servers blocking =
             Some (looping_traffic (of_int (py_int servers)) blocking (10 ^ k) max_i 0)))"
proof (intro conjI impI)
  assume "servers < 1 \<or> blocking < 0"
  then show "traffic servers blocking = Some (Inr 0)"
    by (auto simp: traffic_def Let_def)
next
  assume v: "\<not> (servers < 1 \<or> blocking < 0)"
    and b: "erlang_b servers (of_int (py_int servers)) = Inr b"
    and d: "traffic_double servers blocking (of_int (py_int servers)) b = Some (Inr max_i)"
  obtain k where k: "traffic_incr 1 max_i = Some (10 ^ k)" "max_i / 100 < 10 ^ k"
      "\<forall>i<k. (10::real) ^ i \<le> max_i / 100"
    using traffic_incr_result[of max_i] by blast
  have "traffic servers blocking =
          Some (looping_traffic (of_int (py_int servers)) blocking (10 ^ k) max_i 0)"
    using v b d k(1) by (simp add: traffic_def Let_def)
  with k show "\<exists>k. traffic_incr 1 max_i = Some (10 ^ k) \<and>
           max_i / 100 < 10 ^ k \<and> (\<forall>i<k. (10::real) ^ i \<le> max_i / 100) \<and>
           traffic servers blocking =
             Some (looping_traffic (of_int (py_int servers)) blocking (10 ^ k) max_i 0)"
    by blast
qed

theorem traffic_step_size_witness:
  "traffic 0 (1/2) = Some (Inr 0) \<and>
   (\<exists>k. traffic_incr 1 1 = Some (10 ^ k) \<and> (1::real) / 100 < 10 ^ k \<and>
        traffic 1 (1/2) = Some (looping_traffic 1 (1/2) (10 ^ k) 1 0))"
proof -
  have e: "erlang_b 1 (of_int (py_int 1)) = Inr (1/2)"
    by (simp add: py_int_def erlang_b_1_1)
  have d: "traffic_double 1 (1/2) (of_int (py_int 1)) (1/2) = Some (Inr 1)"
    by (simp add: py_int_def traffic_double_1_half)
  have p: "of_int (py_int 1) = (1::real)" by (simp add: py_int_def)
  from traffic_step_size[of 0 "1/2" b max_i] have a: "traffic 0 (1/2) = Some (Inr 0)" by simp
  from traffic_step_size[of 1 "1/2" "1/2" 1] e d
  have "\<exists>k. traffic_incr 1 1 = Some (10 ^ k) \<and> (1::real) / 100 < 10 ^ k \<and>
        (\<forall>i<k. (10::real) ^ i \<le> 1 / 100) \<and>
        traffic 1 (1/2) = Some (looping_traffic (of_int (py_int 1)) (1/2) (10 ^ k) 1 0)"
    by simp
  then show ?thesis using a unfolding p by blast
qed

text \<open>
  C7 (failing input). The doubling loop of \<open>traffic\<close>, \<open>while b < blocking: max_i *= 2\<close>, has
  no iteration cap. A blocking target above one is accepted by the input check
  (\<open>blocking < 0\<close> only) and can never be reached by \<open>erlang_b\<close>, whose values are at most
  one: \<open>traffic(1, 2.0)\<close> does not return.
\<close>

theorem traffic_doubling_loop_diverges: "traffic 1 2 = None"
proof -
  have "traffic_double 1 2 1 (1/2) = None"
  proof (cases "traffic_double 1 2 1 (1/2)")
    case None
    then show ?thesis .
  next
    case (Some y)
    from traffic_double_never_returns[OF this] show ?thesis by simp
  qed
  then show ?thesis
    by (simp add: traffic_def py_int_def erlang_b_1_1)
qed

text \<open>
  C8. \<open>nb_agents\<close> and \<open>number_trunks\<close> raise \<open>CalculationError\<close> when no count up to
  \<open>65535\<close> meets the target; \<open>service_time\<close> raises \<open>CalculationError\<close> when the queueing
  probability is below \<open>1 - sla\<close>; \<open>erlang_b\<close>, \<open>engset_b\<close> and \<open>erlang_c\<close> return \<open>0.0\<close> for
  negative servers or intensity. (Each failure is raised inside the function's \<open>try\<close> block
  and re-raised by its handler as a \<open>CalculationError\<close> with the first as its cause.)
\<close>

theorem calculation_failures:
  "(0 \<le> calls_ph \<and> 0 \<le> avg_sa \<and> 0 < avg_ht \<and>
      (\<forall>count\<in>{1..65535}. \<exists>a. asa (of_int count) calls_ph avg_ht = Inr a \<and> avg_sa < of_int a)
    \<longrightarrow> nb_agents calls_ph avg_sa avg_ht = Inl (CalculationError (Some (CalculationError None)))) \<and>
   (0 \<le> servers \<and> 0 \<le> intensity \<and>
      (\<forall>count\<in>{int_ceiling servers..65535}.
          \<exists>b. erlang_b (of_int count) intensity = Inr b \<and> \<not> b < 0.001)
    \<longrightarrow> number_trunks servers intensity = Inl (CalculationError (Some (CalculationError None)))) \<and>
   (0 \<le> agents \<and> 0 \<le> sla \<and> 0 \<le> calls_per_hour \<and> 0 < aht \<and>
      erlang_c agents (calls_per_hour / (INTERVAL / aht)) = Inr c \<and> c < 1 - sla
    \<longrightarrow> service_time agents sla calls_per_hour aht =
          Inl (CalculationError (Some (CalculationError None)))) \<and>
   (s < 0 \<or> i < 0 \<longrightarrow>
      erlang_b s i = Inr 0 \<and> engset_b s ev i = Inr 0 \<and> erlang_c s i = Inr 0)"
proof (intro conjI impI)
  assume h: "0 \<le> calls_ph \<and> 0 \<le> avg_sa \<and> 0 < avg_ht \<and>
      (\<forall>count\<in>{1..65535}. \<exists>a. asa (of_int count) calls_ph avg_ht = Inr a \<and> avg_sa < of_int a)"
  then have "nb_agents_loop calls_ph avg_sa avg_ht (py_range 1 (65535 + 1)) =
               Inl (CalculationError None)"
    by (intro nb_agents_loop_exhausted) (simp add: set_py_range)
  with h show "nb_agents calls_ph avg_sa avg_ht =
                 Inl (CalculationError (Some (CalculationError None)))"
    by (simp add: nb_agents_def)
next
  assume h: "0 \<le> servers \<and> 0 \<le> intensity \<and>
      (\<forall>count\<in>{int_ceiling servers..65535}.
          \<exists>b. erlang_b (of_int count) intensity = Inr b \<and> \<not> b < 0.001)"
  then have "number_trunks_loop intensity (py_range (int_ceiling servers) (65535 + 1)) =
               Inl (CalculationError None)"
    by (intro number_trunks_loop_exhausted) (simp add: set_py_range)
  with h show "number_trunks servers intensity =
                 Inl (CalculationError (Some (CalculationError None)))"
    by (simp add: number_trunks_def)
next
  assume h: "0 \<le> agents \<and> 0 \<le> sla \<and> 0 \<le> calls_per_hour \<and> 0 < aht \<and>
      erlang_c agents (calls_per_hour / (INTERVAL / aht)) = Inr c \<and> c < 1 - sla"
  then have "INTERVAL / aht \<noteq> 0" "aht \<noteq> 0" by (auto simp: INTERVAL_def)
  with h show "service_time agents sla calls_per_hour aht =
          Inl (CalculationError (Some (CalculationError None)))"
    by (simp add: service_time_def py_div_def)
next
  assume "s < 0 \<or> i < 0"
  then show "erlang_b s i = Inr 0" "engset_b s ev i = Inr 0" "erlang_c s i = Inr 0"
    by (auto simp: erlang_b_def engset_b_def erlang_c_def)
qed

theorem calculation_failures_witness:
  "nb_agents 100000 0 3600 = Inl (CalculationError (Some (CalculationError None))) \<and>
   number_trunks 1 1000000000 = Inl (CalculationError (Some (CalculationError None))) \<and>
   service_time 2 (1/2) 10 180 = Inl (CalculationError (Some (CalculationError None))) \<and>
   erlang_b (- 1) 1 = Inr 0 \<and> engset_b (- 1) 3 1 = Inr 0 \<and> erlang_c (- 1) 1 = Inr 0"
proof -
  have a: "\<forall>count\<in>{1..65535}. \<exists>a. asa (of_int count) 100000 3600 = Inr a \<and> (0::real) < of_int a"
    using asa_overloaded by simp
  have ic: "int_ceiling 1 = 1" by (simp add: int_ceiling_def py_int_def)
  have b: "\<forall>count\<in>{int_ceiling 1..65535}.
             \<exists>b. erlang_b (of_int count) 1000000000 = Inr b \<and> \<not> b < 0.001"
    unfolding ic using erlang_b_overloaded by simp
  have c: "erlang_c 2 (10 / (INTERVAL / 180)) = Inr (1/10)"
    by (simp add: INTERVAL_def erlang_c_2_half)
  from calculation_failures
         [where calls_ph = 100000 and avg_sa = 0 and avg_ht = 3600
            and servers = 1 and intensity = 1000000000
            and agents = 2 and sla = "1/2" and calls_per_hour = 10 and aht = 180
            and c = "1/10" and s = "- 1" and i = 1 and ev = 3]
    a b c
  show ?thesis by simp
qed

text \<open>
  C9 (failing input). With utilisation \<open>\<ge> 1\<close> and a fractional agent count below one,
  \<open>service_time\<close> never reaches the substitution of \<open>0.99\<close>: \<open>erlang_c\<close> calls \<open>erlang_b\<close>,
  whose loop does not run for \<open>int(0.5) = 0\<close> servers, and the unbound \<open>b\<close> is re-raised as a
  \<open>CalculationError\<close>. (From one agent upwards both functions return the capped,
  non-negative value: \<open>queue_time_capped\<close>, \<open>service_time_capped\<close>.)
\<close>

theorem service_time_fractional_agent_raises:
  "service_time (1/2) (4/5) 10 3600 = Inl (CalculationError (Some UnboundLocalError))"
  by (simp add: service_time_def erlang_c_def eval_defs)

text \<open>
  C5 (as stated, refuted). \<open>agents_required\<close> returns an integer \<open>x\<close>, so
  \<open>[floor(x), ceil(x)]\<close> is the single point \<open>x\<close>. For \<open>sla = 0.4\<close>, \<open>service_time = 0\<close>,
  \<open>calls_per_hour = 10\<close>, \<open>aht = 180\<close> the integer ladder returns \<open>1\<close> and the fractional one
  \<open>0.8\<close>.
\<close>

theorem fractional_agents_floor_ceil_counterexample:
  "\<not> (\<exists>x f. agents_required (2/5) 0 10 180 = Inr x \<and>
            fractional_agents (2/5) 0 10 180 = Inr f \<and>
            of_int \<lfloor>of_int x :: real\<rfloor> \<le> f \<and> f \<le> of_int \<lceil>of_int x :: real\<rceil>)"
  by (simp add: agents_required_low_target fractional_agents_low_target)

text \<open>
  C5 (amended). For every valid input (\<open>sla \<ge> 0\<close>, \<open>service_time \<ge> 0\<close>,
  \<open>calls_per_hour \<ge> 0\<close>, \<open>aht > 0\<close>) both functions return, and \<open>fractional_agents\<close> lies
  within \<open>[x - 1, x]\<close> where \<open>x\<close> is the result of \<open>agents_required\<close>. Whenever the final
  sample \<open>sl(N)\<close> of the ladder strictly exceeds the target \<open>min(sla, 1)\<close>, the result is
  \<open>(target - p) / (sl(N) - p) + (N - 1)\<close>, where \<open>p\<close> is the sample \<open>sl(N - 1)\<close> of the previous
  rung, or \<open>0\<close> when \<open>N\<close> is the first rung of the ladder.
\<close>

theorem fractional_agents_bracket:
  assumes "0 \<le> sla" "0 \<le> st" "0 \<le> calls_per_hour" "0 < aht"
  defines "t \<equiv> calls_per_hour / (INTERVAL / aht)" and "target \<equiv> min sla 1"
  shows "\<exists>N f N0 s l.
     agents_required sla st calls_per_hour aht = Inr N \<and>
     fractional_agents sla st calls_per_hour aht = Inr f \<and>
     of_int N - 1 \<le> f \<and> f \<le> of_int N \<and>
     staffing_start t (initial_agents calls_per_hour aht)
       (t / of_int (initial_agents calls_per_hour aht)) = Inr N0 \<and>
     fractional_agents_loop (nat (N0 * 100)) target st t aht N0 0 0 = Inr (N, s, l) \<and>
     (target < s \<longrightarrow>
        ladder_sample st t aht N = Inr s \<and>
        (if N = N0 then l = 0 else ladder_sample st t aht (N - 1) = Inr l) \<and>
        f = (target - l) / (s - l) + (of_int N - 1))"
proof -
  define n where "n = initial_agents calls_per_hour aht"
  have n1: "1 \<le> n" unfolding n_def by (rule initial_agents_ge1)
  have dpos: "0 < INTERVAL / aht" using assms(4) by (simp add: INTERVAL_def)
  have t0: "0 \<le> t" unfolding t_def using assms(3) dpos by (intro divide_nonneg_pos)
  have tg0: "0 \<le> target" unfolding target_def using assms(1) by simp
  have dnz: "INTERVAL / aht \<noteq> 0" "aht \<noteq> 0" "INTERVAL \<noteq> 0" "(of_int n :: real) \<noteq> 0"
    using assms(4) n1 by (simp_all add: INTERVAL_def)
  have 1: "py_div INTERVAL aht = Inr (INTERVAL / aht)"
    by (rule py_div_nz[OF dnz(2)])
  have 2: "py_div calls_per_hour (INTERVAL / aht) = Inr t"
    unfolding t_def by (rule py_div_nz[OF dnz(1)])
  have 3: "py_div (calls_per_hour * aht) INTERVAL = Inr (calls_per_hour * aht / INTERVAL)"
    by (rule py_div_nz[OF dnz(3)])
  have 4: "py_div t (of_int n) = Inr (t / of_int n)"
    by (rule py_div_nz[OF dnz(4)])
  from staffing_start_returns[OF t0 n1 refl]
  obtain N0 where N0: "staffing_start t n (t / of_int n) = Inr N0" "n \<le> N0" "t < of_int N0"
    by blast
  have N01: "1 \<le> N0" using n1 N0(2) by simp
  from ladders_agree[OF t0 assms(4) N01 N0(3) tg0, of "nat (N0 * 100)" st 0]
  obtain N s l where
    L: "fractional_agents_loop (nat (N0 * 100)) target st t aht N0 0 0 = Inr (N, s, l)"
       "agents_required_loop (nat (N0 * 100)) target st t aht N0 = Inr N" "N0 \<le> N"
       "target < s \<longrightarrow> ladder_sample st t aht N = Inr s \<and>
           (if N = N0 then l = 0 else ladder_sample st t aht (N - 1) = Inr l \<and> l < target)"
    by blast
  have v1: "(sla < 0 \<or> calls_per_hour < 0 \<or> aht \<le> 0) = False"
    using assms by simp
  have v2: "(sla < 0 \<or> calls_per_hour < 0 \<or> aht \<le> 0 \<or> st < 0) = False"
    using assms by simp
  have ar: "agents_required sla st calls_per_hour aht = Inr N"
    unfolding agents_required_def
    by (simp only: v1 if_False Let_def 1 2 3 bindE_Inr
          4[unfolded n_def initial_agents_def Let_def]
          N0(1)[unfolded n_def initial_agents_def Let_def]
          L(2)[unfolded target_def] wrap_Inr)
  have fa0: "fractional_agents sla st calls_per_hour aht =
          wrap (if target < s
                then bindE (py_div (target - l) (s - l)) (\<lambda>q. Inr (q + of_int (N - 1)))
                else Inr (of_int N))"
    unfolding fractional_agents_def target_def
    by (simp only: v2 if_False Let_def 1 2 3 bindE_Inr
          4[unfolded n_def initial_agents_def Let_def]
          N0(1)[unfolded n_def initial_agents_def Let_def]
          L(1)[unfolded target_def] prod.case)
  define f where "f = (if target < s then (target - l) / (s - l) + (of_int N - 1) else of_int N)"
  have fa: "fractional_agents sla st calls_per_hour aht = Inr f"
    and fb: "of_int N - 1 \<le> f" "f \<le> of_int N"
  proof -
    show "fractional_agents sla st calls_per_hour aht = Inr f"
    proof (cases "target < s")
      case False
      then show ?thesis unfolding fa0 f_def by simp
    next
      case True
      with L(4) tg0 have "l \<le> target" by (auto split: if_splits)
      with True have "s - l \<noteq> 0" by simp
      then show ?thesis unfolding fa0 f_def using True by (simp add: py_div_def)
    qed
    show "of_int N - 1 \<le> f" "f \<le> of_int N"
    proof -
      have "of_int N - 1 \<le> f \<and> f \<le> of_int N"
      proof (cases "target < s")
        case False
        then show ?thesis unfolding f_def by simp
      next
        case True
        with L(4) tg0 have lt: "l \<le> target" by (auto split: if_splits)
        with True have pos: "0 < s - l" by simp
        have q0: "0 \<le> (target - l) / (s - l)" using lt pos by simp
        have "target - l \<le> s - l" using True by simp
        then have q1: "(target - l) / (s - l) \<le> 1" using pos by (simp add: pos_divide_le_eq)
        show ?thesis unfolding f_def using True q0 q1 by simp
      qed
      then show "of_int N - 1 \<le> f" "f \<le> of_int N" by simp_all
    qed
  qed
  have "target < s \<longrightarrow>
        ladder_sample st t aht N = Inr s \<and>
        (if N = N0 then l = 0 else ladder_sample st t aht (N - 1) = Inr l) \<and>
        f = (target - l) / (s - l) + (of_int N - 1)"
    using L(4) by (auto simp: f_def)
  with ar fa fb N0(1)[unfolded n_def] L(1) show ?thesis by blast
qed

theorem fractional_agents_bracket_witness:
  "\<exists>N f s l. agents_required (2/5) 0 10 180 = Inr N \<and>
     fractional_agents (2/5) 0 10 180 = Inr f \<and>
     of_int N - 1 \<le> f \<and> f \<le> of_int N \<and>
     fractional_agents_loop 100 (2/5) 0 (1/2) 180 1 0 0 = Inr (N, s, l) \<and>
     (2/5 :: real) < s \<and> ladder_sample 0 (1/2) 180 N = Inr s \<and> l = 0 \<and>
     f = (2/5 - l) / (s - l) + (of_int N - 1)"
proof -
  have t: "10 / (INTERVAL / 180) = (1/2 :: real)" by (simp add: INTERVAL_def)
  have i: "initial_agents 10 180 = 1"
    by (simp add: initial_agents_def INTERVAL_def py_int_def)
  have m: "min (2/5 :: real) 1 = 2/5" by simp
  from fractional_agents_bracket[of "2/5" 0 10 180]
  obtain N f N0 s l where r:
     "agents_required (2/5) 0 10 180 = Inr N"
     "fractional_agents (2/5) 0 10 180 = Inr f"
     "of_int N - 1 \<le> f" "f \<le> of_int N"
     "staffing_start (1/2) 1 (1/2 / of_int 1) = Inr N0"
     "fractional_agents_loop (nat (N0 * 100)) (2/5) 0 (1/2) 180 N0 0 0 = Inr (N, s, l)"
     "(2/5 :: real) < s \<longrightarrow>
        ladder_sample 0 (1/2) 180 N = Inr s \<and>
        (if N = N0 then l = 0 else ladder_sample 0 (1/2) 180 (N - 1) = Inr l) \<and>
        f = (2/5 - l) / (s - l) + (of_int N - 1)"
    unfolding t i m by auto
  from r(5) have N0: "N0 = 1" by (simp add: staffing_start_half)
  have n: "nat (1 * 100) = 100" by simp
  note loop = r(6)[unfolded N0 n]
  from loop have e: "N = 1" "s = 1/2" "l = 0"
    unfolding fractional_agents_loop_low_target by simp_all
  have lt: "(2/5 :: real) < s" unfolding e by simp
  from r(7) lt have c: "ladder_sample 0 (1/2) 180 N = Inr s"
    "f = (2/5 - l) / (s - l) + (of_int N - 1)" by simp_all
  from r(1-4) loop lt c e(3) show ?thesis by blast
qed

end
